theory Spec2Isabelle
  imports Main "HOL-Library.Word"
begin

section \<open>Data model\<close>

text \<open>
  The development embeds \<^verbatim>\<open>cpp/src/arrow/compute/kernels/scalar_cast_string.cc\<close>.
  Bytes are 8-bit words. Offsets, sizes and positions are mathematical integers; every
  \<^verbatim>\<open>static_cast\<close> of the source to a narrower integer type is written out as a
  two's-complement wrap (\<open>static_cast_to\<close>). Array lengths and array start offsets are
  natural numbers (the source holds them in non-negative \<^verbatim>\<open>int64_t\<close> fields).
\<close>

type_synonym byte = "8 word"

datatype time_unit = SECOND | MILLI | MICRO | NANO

datatype data_type =
    BinaryType | StringType | LargeBinaryType | LargeStringType
  | BinaryViewType | StringViewType
  | FixedSizeBinaryType int
  | Decimal128Type int int | Decimal256Type int int
  | BooleanType | Int64Type | DoubleType
  | TimestampType time_unit string

text \<open>The type traits the templates of the source branch on (\<^verbatim>\<open>I::is_utf8\<close>,
  \<^verbatim>\<open>I::offset_type\<close>, \<^verbatim>\<open>is_base_binary_type\<close>, \<^verbatim>\<open>is_binary_view_like_type\<close>).\<close>

fun is_utf8 :: "data_type \<Rightarrow> bool" where
  "is_utf8 StringType = True"
| "is_utf8 LargeStringType = True"
| "is_utf8 StringViewType = True"
| "is_utf8 _ = False"

fun is_base_binary_type :: "data_type \<Rightarrow> bool" where
  "is_base_binary_type BinaryType = True"
| "is_base_binary_type StringType = True"
| "is_base_binary_type LargeBinaryType = True"
| "is_base_binary_type LargeStringType = True"
| "is_base_binary_type _ = False"

fun is_binary_view_like_type :: "data_type \<Rightarrow> bool" where
  "is_binary_view_like_type BinaryViewType = True"
| "is_binary_view_like_type StringViewType = True"
| "is_binary_view_like_type _ = False"

datatype offset_width = W32 | W64

fun offset_type :: "data_type \<Rightarrow> offset_width" where
  "offset_type LargeBinaryType = W64"
| "offset_type LargeStringType = W64"
| "offset_type _ = W32"

fun byte_width :: "data_type \<Rightarrow> int" where
  "byte_width (FixedSizeBinaryType w) = w"
| "byte_width (Decimal128Type p s) = 16"
| "byte_width (Decimal256Type p s) = 32"
| "byte_width _ = 0"

fun sizeof :: "offset_width \<Rightarrow> nat" where
  "sizeof W32 = 4"
| "sizeof W64 = 8"

fun numeric_limits_max :: "offset_width \<Rightarrow> int" where
  "numeric_limits_max W32 = 2147483647"
| "numeric_limits_max W64 = 9223372036854775807"

text \<open>\<^verbatim>\<open>static_cast<offset_type>(x)\<close>: the value modulo \<open>2 ^ bits\<close>, read as two's
  complement.\<close>

fun static_cast_to :: "offset_width \<Rightarrow> int \<Rightarrow> int" where
  "static_cast_to W32 x = (x + 2147483648) mod 4294967296 - 2147483648"
| "static_cast_to W64 x =
     (x + 9223372036854775808) mod 18446744073709551616 - 9223372036854775808"

subsection \<open>Status\<close>

text \<open>A \<^verbatim>\<open>Status\<close> that is not OK: its code and the pieces its message is joined from.
  \<open>TypeName t\<close> stands for \<^verbatim>\<open>t->ToString()\<close>.\<close>

datatype status_code = Invalid | CapacityError | NotImplemented

datatype msg_part = Str string | TypeName data_type

datatype status = Status status_code "msg_part list"

subsection \<open>Buffers and arrays\<close>

text \<open>A data buffer is a handle (the address of the allocation) and the bytes it holds.
  Two buffers with the same handle are one shared allocation.\<close>

record buffer =
  address :: nat
  bytes :: "byte list"

text \<open>\<^verbatim>\<open>BinaryViewType::c_type\<close>: a 16-byte union of an inline view (size and 12 data
  bytes) and a reference view (size, 4-byte prefix, buffer index, offset). The reader
  takes the inline member exactly when the size is at most \<^verbatim>\<open>kInlineSize\<close>.\<close>

datatype c_type =
    Inlined int "byte list"
  | Ref int "byte list" int int

definition kInlineSize :: int where
  "kInlineSize = 12"

definition kPrefixSize :: nat where
  "kPrefixSize = 4"

fun view_size :: "c_type \<Rightarrow> int" where
  "view_size (Inlined n d) = n"
| "view_size (Ref n p b off) = n"

fun is_inline :: "c_type \<Rightarrow> bool" where
  "is_inline (Inlined n d) = True"
| "is_inline (Ref n p b off) = False"

text \<open>The fields every \<^verbatim>\<open>ArraySpan\<close> / \<^verbatim>\<open>ArrayData\<close> has; \<open>a_validity\<close> is
  \<^verbatim>\<open>buffers[0]\<close> (\<open>None\<close>: a null pointer, every slot valid), one bit per slot of the
  parent buffer.\<close>

record array_header =
  a_type :: data_type
  a_length :: nat
  a_offset :: nat
  a_null_count :: int
  a_validity :: "bool list option"

text \<open>Offset layout: \<^verbatim>\<open>buffers[1]\<close> holds the offsets, \<^verbatim>\<open>buffers[2]\<close> the data.\<close>

record offset_array = array_header +
  value_offsets :: "int list"
  value_data :: "buffer option"

text \<open>View layout: \<^verbatim>\<open>buffers[1]\<close> holds the views, \<^verbatim>\<open>buffers[2..]\<close> the variadic
  data buffers.\<close>

record view_array = array_header +
  views :: "c_type list"
  variadic :: "buffer option list"

text \<open>Fixed-width layout: \<^verbatim>\<open>buffers[1]\<close> holds the data.\<close>

record fixed_array = array_header +
  fixed_data :: "buffer option"

record CastOptions =
  to_type :: data_type
  allow_invalid_utf8 :: bool

text \<open>The kernel context: the cast options of \<^verbatim>\<open>ctx->state()\<close> and the memory pool,
  represented by the next address it hands out. Allocations from the pool are taken to
  succeed.\<close>

record KernelContext =
  options :: CastOptions
  memory_pool :: nat

subsection \<open>Reading slots\<close>

definition IsValid :: "'a array_header_scheme \<Rightarrow> nat \<Rightarrow> bool" where
  "IsValid a i = (case a_validity a of None \<Rightarrow> True | Some bm \<Rightarrow> bm ! (a_offset a + i))"

definition buffer_bytes :: "buffer option \<Rightarrow> byte list" where
  "buffer_bytes b = (case b of None \<Rightarrow> [] | Some x \<Rightarrow> bytes x)"

definition slice :: "byte list \<Rightarrow> int \<Rightarrow> int \<Rightarrow> byte list" where
  "slice d pos len = take (nat len) (drop (nat pos) d)"

text \<open>\<^verbatim>\<open>input.GetValues<offset_type>(1)\<close>: the offsets from the array's start offset on.\<close>

definition GetValues_offsets :: "offset_array \<Rightarrow> int list" where
  "GetValues_offsets a = drop (a_offset a) (value_offsets a)"

definition GetView_offset :: "offset_array \<Rightarrow> nat \<Rightarrow> byte list" where
  "GetView_offset a i =
     (let pos = GetValues_offsets a ! i;
          len = GetValues_offsets a ! (i + 1) - pos
      in slice (buffer_bytes (value_data a)) pos len)"

fun view_bytes :: "buffer option list \<Rightarrow> c_type \<Rightarrow> byte list" where
  "view_bytes bufs (Inlined n d) = take (nat n) d"
| "view_bytes bufs (Ref n p b off) = slice (buffer_bytes (bufs ! nat b)) off n"

definition GetView_view :: "view_array \<Rightarrow> nat \<Rightarrow> byte list" where
  "GetView_view a i = view_bytes (variadic a) (views a ! (a_offset a + i))"

definition GetView_fixed :: "fixed_array \<Rightarrow> nat \<Rightarrow> byte list" where
  "GetView_fixed a i =
     slice (buffer_bytes (fixed_data a))
       ((int (a_offset a) + int i) * byte_width (a_type a)) (byte_width (a_type a))"

text \<open>Modelled from the spec: the inline visitors of \<^verbatim>\<open>arrow/visit_data_inline.h\<close>
  (\<^verbatim>\<open>VisitArraySpanInline\<close>, \<^verbatim>\<open>ArraySpanVisitor\<close>) are not part of the source under
  study. They walk the slots \<open>0 ..< length\<close> in order, hand the bytes of a non-null slot
  to the value function and call the null function for a null slot, and stop at the first
  status that is not OK. \<open>array_slots\<close> is the sequence they walk.\<close>

definition array_slots ::
  "('a array_header_scheme \<Rightarrow> nat \<Rightarrow> 'b) \<Rightarrow> 'a array_header_scheme \<Rightarrow> 'b option list" where
  "array_slots get a =
     map (\<lambda>i. if IsValid a i then Some (get a i) else None) [0 ..< a_length a]"

fun VisitArraySpanInline ::
  "('b \<Rightarrow> 's \<Rightarrow> status + 's) \<Rightarrow> ('s \<Rightarrow> status + 's) \<Rightarrow> 'b option list \<Rightarrow> 's \<Rightarrow> status + 's" where
  "VisitArraySpanInline valid_func null_func [] s = Inr s"
| "VisitArraySpanInline valid_func null_func (None # xs) s =
     (case null_func s of Inl e \<Rightarrow> Inl e
      | Inr s' \<Rightarrow> VisitArraySpanInline valid_func null_func xs s')"
| "VisitArraySpanInline valid_func null_func (Some v # xs) s =
     (case valid_func v s of Inl e \<Rightarrow> Inl e
      | Inr s' \<Rightarrow> VisitArraySpanInline valid_func null_func xs s')"

subsection \<open>UTF-8 guard\<close>

text \<open>Modelled from the spec: \<^verbatim>\<open>ValidateUTF8Inline\<close> (\<^verbatim>\<open>arrow/util/utf8_internal.h\<close>)
  is not part of the source under study. It is UTF-8 well-formedness: shortest form only,
  no surrogates, nothing above U+10FFFF.\<close>

definition is_cont :: "byte \<Rightarrow> bool" where
  "is_cont b = (0x80 \<le> b \<and> b \<le> 0xBF)"

fun ValidateUTF8Inline :: "byte list \<Rightarrow> bool" where
  "ValidateUTF8Inline [] = True"
| "ValidateUTF8Inline (b0 # bs) =
     (if b0 \<le> 0x7F then ValidateUTF8Inline bs
      else if 0xC2 \<le> b0 \<and> b0 \<le> 0xDF then
        (case bs of
           b1 # r \<Rightarrow> is_cont b1 \<and> ValidateUTF8Inline r
         | _ \<Rightarrow> False)
      else if 0xE0 \<le> b0 \<and> b0 \<le> 0xEF then
        (case bs of
           b1 # b2 # r \<Rightarrow>
             is_cont b1 \<and> (b0 = 0xE0 \<longrightarrow> 0xA0 \<le> b1) \<and> (b0 = 0xED \<longrightarrow> b1 \<le> 0x9F)
             \<and> is_cont b2 \<and> ValidateUTF8Inline r
         | _ \<Rightarrow> False)
      else if 0xF0 \<le> b0 \<and> b0 \<le> 0xF4 then
        (case bs of
           b1 # b2 # b3 # r \<Rightarrow>
             is_cont b1 \<and> (b0 = 0xF0 \<longrightarrow> 0x90 \<le> b1) \<and> (b0 = 0xF4 \<longrightarrow> b1 \<le> 0x8F)
             \<and> is_cont b2 \<and> is_cont b3 \<and> ValidateUTF8Inline r
         | _ \<Rightarrow> False)
      else False)"

text \<open>\<^verbatim>\<open>struct Utf8Validator\<close>.\<close>

definition VisitNull :: "unit \<Rightarrow> status + unit" where
  "VisitNull s = Inr ()"

definition VisitValue :: "byte list \<Rightarrow> unit \<Rightarrow> status + unit" where
  "VisitValue str s =
     (if \<not> ValidateUTF8Inline str then Inl (Status Invalid [Str ''Invalid UTF8 payload''])
      else Inr ())"

text \<open>\<^verbatim>\<open>visitor.Visit(input, &validator)\<close> on the slots of the input.\<close>

definition ArraySpanVisitor_Visit :: "byte list option list \<Rightarrow> status + unit" where
  "ArraySpanVisitor_Visit slots = VisitArraySpanInline VisitValue VisitNull slots ()"

section \<open>Offset-width conversion\<close>

text \<open>Modelled from the spec: \<^verbatim>\<open>arrow::internal::CastInts\<close> (\<^verbatim>\<open>arrow/util/int_util.h\<close>)
  is not part of the source under study; it casts every value to the destination width.\<close>

definition CastInts :: "offset_width \<Rightarrow> int list \<Rightarrow> int list" where
  "CastInts w xs = map (static_cast_to w) xs"

definition too_large_msg :: "data_type \<Rightarrow> data_type \<Rightarrow> msg_part list" where
  "too_large_msg i_ty o_ty =
     [Str ''Failed casting from '', TypeName i_ty, Str '' to '', TypeName o_ty,
      Str '': input array too large'']"

text \<open>\<^verbatim>\<open>CastBinaryToBinaryOffsets<I, O>\<close>: the two specialisations, then the same-width
  no-op. The fresh offsets buffer has \<open>length + offset + 1\<close> entries: \<open>offset\<close> zeros
  (the \<^verbatim>\<open>memset\<close>), then the \<open>length + 1\<close> converted offsets.\<close>

fun CastBinaryToBinaryOffsets ::
  "offset_width \<Rightarrow> offset_width \<Rightarrow> KernelContext \<Rightarrow> offset_array \<Rightarrow> offset_array
    \<Rightarrow> status + offset_array" where
  "CastBinaryToBinaryOffsets W32 W64 ctx input output =
     Inr (output\<lparr>value_offsets :=
       replicate (a_offset output) 0
       @ CastInts W64 (take (a_length output + 1) (GetValues_offsets input))\<rparr>)"
| "CastBinaryToBinaryOffsets W64 W32 ctx input output =
     (let kMaxOffset = numeric_limits_max W32;
          input_offsets = GetValues_offsets input
      in if input_offsets ! a_length input > kMaxOffset
         then Inl (Status Invalid (too_large_msg (a_type input) (a_type output)))
         else Inr (output\<lparr>value_offsets :=
           replicate (a_offset output) 0
           @ CastInts W32 (take (a_length output + 1) input_offsets)\<rparr>))"
| "CastBinaryToBinaryOffsets _ _ ctx input output = Inr output"

text \<open>Modelled from the spec: \<^verbatim>\<open>ZeroCopyCastExec\<close> (\<^verbatim>\<open>scalar_cast_internal.cc\<close>) is not
  part of the source under study. Zero-copy: the output takes the input's length, offset,
  null count and every buffer by reference, and keeps its own type.\<close>

definition ZeroCopyCastExec_offset :: "offset_array \<Rightarrow> offset_array \<Rightarrow> status + offset_array" where
  "ZeroCopyCastExec_offset input out = Inr (input\<lparr>a_type := a_type out\<rparr>)"

text \<open>\<^verbatim>\<open>BinaryToBinaryCastExec\<close>, offset string to offset string.\<close>

definition BinaryToBinaryCastExec_offset_to_offset ::
  "KernelContext \<Rightarrow> offset_array \<Rightarrow> offset_array \<Rightarrow> status + offset_array" where
  "BinaryToBinaryCastExec_offset_to_offset ctx input out =
     (case (if \<not> is_utf8 (a_type input) \<and> is_utf8 (a_type out)
              \<and> \<not> allow_invalid_utf8 (options ctx)
            then ArraySpanVisitor_Visit (array_slots GetView_offset input)
            else Inr ()) of
        Inl e \<Rightarrow> Inl e
      | Inr _ \<Rightarrow>
          (case ZeroCopyCastExec_offset input out of
             Inl e \<Rightarrow> Inl e
           | Inr output \<Rightarrow>
               CastBinaryToBinaryOffsets (offset_type (a_type input)) (offset_type (a_type out))
                 ctx input output))"

section \<open>Layout transcoder\<close>

subsection \<open>Helpers outside the source file\<close>

text \<open>Modelled from the spec: \<^verbatim>\<open>arrow::internal::CopyBitmap\<close> and
  \<^verbatim>\<open>GetOrCopyNullBitmapBuffer\<close> (\<^verbatim>\<open>scalar_cast_internal.cc\<close>) are not part of the source
  under study. A copy is re-aligned to bit offset zero and spans exactly \<open>length\<close> bits; a
  source that starts at offset zero shares its bitmap, and a source without a bitmap gives
  none.\<close>

definition CopyBitmap :: "bool list \<Rightarrow> nat \<Rightarrow> nat \<Rightarrow> bool list" where
  "CopyBitmap bm off len = take len (drop off bm)"

definition GetOrCopyNullBitmapBuffer :: "'a array_header_scheme \<Rightarrow> bool list option" where
  "GetOrCopyNullBitmapBuffer input =
     (case a_validity input of
        None \<Rightarrow> None
      | Some bm \<Rightarrow>
          if a_offset input = 0 then Some bm
          else Some (CopyBitmap bm (a_offset input) (a_length input)))"

text \<open>Modelled from the spec: \<^verbatim>\<open>Buffer::CopySlice\<close> (\<^verbatim>\<open>arrow/buffer.cc\<close>) is not part
  of the source under study. It allocates from the pool and copies the bytes
  \<open>start ..< start + nbytes\<close>; the new buffer's handle is the pool's next address.\<close>

definition CopySlice :: "buffer \<Rightarrow> nat \<Rightarrow> nat \<Rightarrow> nat \<Rightarrow> buffer" where
  "CopySlice b start nbytes pool = \<lparr>address = pool, bytes = take nbytes (drop start (bytes b))\<rparr>"

text \<open>Modelled from the spec: \<^verbatim>\<open>VisitSetBitRunsVoid\<close> (\<^verbatim>\<open>arrow/util/bit_run_reader.h\<close>)
  is not part of the source under study. It calls \<open>visit position run_length\<close> once per
  maximal run of set bits among the bits \<open>offset ..< offset + length\<close>, positions counted
  from \<open>offset\<close>; with a null bitmap it calls \<open>visit 0 length\<close> once.\<close>

fun set_bit_runs :: "bool list \<Rightarrow> nat \<Rightarrow> (nat \<times> nat) list" where
  "set_bit_runs [] pos = []"
| "set_bit_runs (False # bs) pos = set_bit_runs bs (pos + 1)"
| "set_bit_runs (True # bs) pos =
     (case set_bit_runs bs (pos + 1) of
        [] \<Rightarrow> [(pos, 1)]
      | (s, l) # rest \<Rightarrow>
          if s = pos + 1 then (pos, l + 1) # rest else (pos, 1) # (s, l) # rest)"

definition VisitSetBitRunsVoid ::
  "bool list option \<Rightarrow> nat \<Rightarrow> nat \<Rightarrow> (nat \<Rightarrow> nat \<Rightarrow> 's \<Rightarrow> 's) \<Rightarrow> 's \<Rightarrow> 's" where
  "VisitSetBitRunsVoid bitmap off len visit s =
     (case bitmap of
        None \<Rightarrow> visit 0 len s
      | Some bm \<Rightarrow> fold (\<lambda>(p, l). visit p l) (set_bit_runs (take len (drop off bm)) 0) s)"

text \<open>The overload of \<^verbatim>\<open>VisitArraySpanInline\<close> for functions that return nothing.\<close>

fun VisitArraySpanInline_void ::
  "('b \<Rightarrow> 's \<Rightarrow> 's) \<Rightarrow> ('s \<Rightarrow> 's) \<Rightarrow> 'b option list \<Rightarrow> 's \<Rightarrow> 's" where
  "VisitArraySpanInline_void valid_func null_func [] s = s"
| "VisitArraySpanInline_void valid_func null_func (None # xs) s =
     VisitArraySpanInline_void valid_func null_func xs (null_func s)"
| "VisitArraySpanInline_void valid_func null_func (Some v # xs) s =
     VisitArraySpanInline_void valid_func null_func xs (valid_func v s)"

text \<open>A zero-filled view record (the \<^verbatim>\<open>memset\<close> of the views buffer), and the effect of
  a \<^verbatim>\<open>memcpy\<close> of some bytes into the 12 zeroed inline bytes.\<close>

definition empty_view :: c_type where
  "empty_view = Inlined 0 (replicate 12 0)"

definition inline_data :: "byte list \<Rightarrow> byte list" where
  "inline_data bs = bs @ replicate (12 - length bs) 0"

definition too_large_for_view_msg :: "data_type \<Rightarrow> data_type \<Rightarrow> msg_part list" where
  "too_large_for_view_msg i_ty o_ty =
     [Str ''Failed casting from '', TypeName i_ty, Str '' to '', TypeName o_ty,
      Str '': input array too large for efficient conversion.'']"

definition widths_must_match_msg :: "data_type \<Rightarrow> data_type \<Rightarrow> msg_part list" where
  "widths_must_match_msg i_ty o_ty =
     [Str ''Failed casting from '', TypeName i_ty, Str '' to '', TypeName o_ty,
      Str '': widths must match'']"

subsection \<open>String view to offset string\<close>

text \<open>The two builders are the offsets and the data bytes appended so far. The
  \<^verbatim>\<open>Reserve\<close> calls (sized by \<^verbatim>\<open>SumOfBinaryViewSizes\<close>) only allocate and do not
  change the result. The output keeps the start offset the invocation layer gave it.\<close>

definition view_to_offset_value ::
  "offset_width \<Rightarrow> byte list \<Rightarrow> int list \<times> byte list \<Rightarrow> int list \<times> byte list" where
  "view_to_offset_value w s st =
     (let data_builder = snd st @ s
      in (fst st @ [static_cast_to w (int (length data_builder))], data_builder))"

definition view_to_offset_null ::
  "offset_width \<Rightarrow> int list \<times> byte list \<Rightarrow> int list \<times> byte list" where
  "view_to_offset_null w st = (fst st @ [static_cast_to w (int (length (snd st)))], snd st)"

definition BinaryToBinaryCastExec_view_to_offset ::
  "KernelContext \<Rightarrow> view_array \<Rightarrow> offset_array \<Rightarrow> status + offset_array" where
  "BinaryToBinaryCastExec_view_to_offset ctx input out =
     (case (if \<not> is_utf8 (a_type input) \<and> is_utf8 (a_type out)
              \<and> \<not> allow_invalid_utf8 (options ctx)
            then ArraySpanVisitor_Visit (array_slots GetView_view input)
            else Inr ()) of
        Inl e \<Rightarrow> Inl e
      | Inr _ \<Rightarrow>
          (let output = out\<lparr>a_length := a_length input,
                              a_null_count := a_null_count input,
                              a_validity := GetOrCopyNullBitmapBuffer input\<rparr>;
               w = offset_type (a_type out);
               builders = VisitArraySpanInline_void (view_to_offset_value w)
                            (view_to_offset_null w) (array_slots GetView_view input) ([0], [])
           in Inr (output\<lparr>value_offsets := fst builders,
                            value_data := Some \<lparr>address = memory_pool ctx,
                                                bytes = snd builders\<rparr>\<rparr>)))"

subsection \<open>Offset string to string view\<close>

text \<open>\<^verbatim>\<open>ZeroCopyCastExec\<close> into a view-typed output: the validity bitmap and the data
  buffer are shared; \<^verbatim>\<open>buffers[1]\<close> (still the offsets) is replaced right after.\<close>

definition ZeroCopyCastExec_offset_to_view :: "offset_array \<Rightarrow> view_array \<Rightarrow> status + view_array" where
  "ZeroCopyCastExec_offset_to_view input out =
     Inr \<lparr>a_type = a_type out, a_length = a_length input, a_offset = a_offset input,
          a_null_count = a_null_count input, a_validity = a_validity input,
          views = [], variadic = [value_data input]\<rparr>"

text \<open>One iteration of the loop over a run of valid slots; the state is the views buffer
  and \<^verbatim>\<open>all_entries_are_inline\<close>.\<close>

definition offset_to_view_slot ::
  "offset_width \<Rightarrow> int list \<Rightarrow> byte list \<Rightarrow> nat \<Rightarrow> nat \<Rightarrow> c_type list \<times> bool
    \<Rightarrow> c_type list \<times> bool" where
  "offset_to_view_slot w input_offsets input_data out_offset i st =
     (let data_offset = input_offsets ! i;
          data_length = static_cast_to w (input_offsets ! (i + 1) - data_offset)
      in if data_length \<le> kInlineSize
         then ((fst st)[out_offset + i :=
                  Inlined (static_cast_to W32 data_length)
                    (inline_data (slice input_data data_offset data_length))],
               snd st)
         else ((fst st)[out_offset + i :=
                  Ref (static_cast_to W32 data_length)
                    (slice input_data data_offset (int kPrefixSize)) 0
                    (static_cast_to W32 data_offset)],
               False))"

definition BinaryToBinaryCastExec_offset_to_view ::
  "KernelContext \<Rightarrow> offset_array \<Rightarrow> view_array \<Rightarrow> status + view_array" where
  "BinaryToBinaryCastExec_offset_to_view ctx input out =
     (case (if \<not> is_utf8 (a_type input) \<and> is_utf8 (a_type out)
              \<and> \<not> allow_invalid_utf8 (options ctx)
            then ArraySpanVisitor_Visit (array_slots GetView_offset input)
            else Inr ()) of
        Inl e \<Rightarrow> Inl e
      | Inr _ \<Rightarrow>
          (case ZeroCopyCastExec_offset_to_view input out of
             Inl e \<Rightarrow> Inl e
           | Inr output0 \<Rightarrow>
              (let w = offset_type (a_type input);
                   total_length = a_offset input + a_length input;
                   validity = a_validity input;
                   input_offsets = GetValues_offsets input;
                   input_data = buffer_bytes (value_data input);
                   output = output0\<lparr>views := replicate total_length empty_view\<rparr>
               in if sizeof w > 4 \<and> total_length > 0
                     \<and> input_offsets ! a_length input > numeric_limits_max W32
                  then Inl (Status CapacityError
                              (too_large_for_view_msg (a_type input) (a_type output)))
                  else
                    (let r = VisitSetBitRunsVoid validity (a_offset output) (a_length output)
                               (\<lambda>start_offset run_length.
                                  fold (offset_to_view_slot w input_offsets input_data
                                          (a_offset output))
                                    [start_offset ..< start_offset + run_length])
                               (views output, True)
                     in Inr (output\<lparr>views := fst r,
                                      variadic := (if snd r then (variadic output)[0 := None]
                                                   else variadic output)\<rparr>)))))"

subsection \<open>String view to string view\<close>

definition ZeroCopyCastExec_view :: "view_array \<Rightarrow> view_array \<Rightarrow> status + view_array" where
  "ZeroCopyCastExec_view input out = Inr (input\<lparr>a_type := a_type out\<rparr>)"

definition BinaryToBinaryCastExec_view_to_view ::
  "KernelContext \<Rightarrow> view_array \<Rightarrow> view_array \<Rightarrow> status + view_array" where
  "BinaryToBinaryCastExec_view_to_view ctx input out =
     (case (if \<not> is_utf8 (a_type input) \<and> is_utf8 (a_type out)
              \<and> \<not> allow_invalid_utf8 (options ctx)
            then ArraySpanVisitor_Visit (array_slots GetView_view input)
            else Inr ()) of
        Inl e \<Rightarrow> Inl e
      | Inr _ \<Rightarrow> ZeroCopyCastExec_view input out)"

subsection \<open>Fixed-size binary to string view\<close>

text \<open>The state of either loop is the views buffer and the \<^verbatim>\<open>int32_t data_offset\<close>.
  The source reads the data buffer without a null check, so it expects the input to have
  one. \<^verbatim>\<open>DCHECK_EQ(output->length, input.length)\<close> compiles to nothing in a release
  build: the output keeps the length the invocation layer gave it.\<close>

text \<open>\<^verbatim>\<open>output->buffers.resize(3)\<close> leaves exactly one variadic buffer after the validity
  and views buffers: the one the output already had, or a null pointer.\<close>

definition resize :: "nat \<Rightarrow> 'b option list \<Rightarrow> 'b option list" where
  "resize n xs = take n xs @ replicate (n - length xs) None"

definition fixed_to_view_inline_slot ::
  "int \<Rightarrow> byte list \<Rightarrow> nat \<Rightarrow> nat \<Rightarrow> c_type list \<times> int \<Rightarrow> c_type list \<times> int" where
  "fixed_to_view_inline_slot fixed_size_width data out_offset i st =
     ((fst st)[out_offset + i :=
         Inlined fixed_size_width (inline_data (slice data (snd st) fixed_size_width))],
      static_cast_to W32 (snd st + fixed_size_width))"

definition fixed_to_view_ref_slot ::
  "int \<Rightarrow> byte list \<Rightarrow> nat \<Rightarrow> nat \<Rightarrow> c_type list \<times> int \<Rightarrow> c_type list \<times> int" where
  "fixed_to_view_ref_slot fixed_size_width data out_offset i st =
     ((fst st)[out_offset + i :=
         Ref fixed_size_width (slice data (snd st) (int kPrefixSize)) 0
           (static_cast_to W32 (snd st))],
      static_cast_to W32 (snd st + fixed_size_width))"

definition BinaryToBinaryCastExec_fixed_to_view ::
  "KernelContext \<Rightarrow> fixed_array \<Rightarrow> view_array \<Rightarrow> status + view_array" where
  "BinaryToBinaryCastExec_fixed_to_view ctx input out =
     (case (if \<not> is_utf8 (a_type input) \<and> is_utf8 (a_type out)
              \<and> \<not> allow_invalid_utf8 (options ctx)
            then ArraySpanVisitor_Visit (array_slots GetView_fixed input)
            else Inr ()) of
        Inl e \<Rightarrow> Inl e
      | Inr _ \<Rightarrow>
          (let fixed_size_width = byte_width (a_type input);
               total_length = a_offset input + a_length input;
               output = out\<lparr>a_offset := a_offset input,
                              a_null_count := a_null_count input,
                              a_validity := a_validity input,
                              views := replicate total_length empty_view,
                              variadic := resize 1 (variadic out)\<rparr>;
               data_buffer = fixed_data input;
               data = buffer_bytes data_buffer
           in if total_length > 0
                 \<and> (int total_length - 1) * fixed_size_width > numeric_limits_max W32
              then Inl (Status CapacityError
                          (too_large_for_view_msg (a_type input) (a_type output)))
              else if fixed_size_width \<le> kInlineSize
              then
                (let data_offset =
                       static_cast_to W32
                         (static_cast_to W32 (int (a_offset input)) * fixed_size_width);
                     r = fold (fixed_to_view_inline_slot fixed_size_width data (a_offset output))
                           [0 ..< a_length input] (views output, data_offset)
                 in Inr (output\<lparr>views := fst r\<rparr>))
              else
                (let output' = output\<lparr>variadic := (variadic output)[0 := data_buffer]\<rparr>;
                     data_offset =
                       static_cast_to W32
                         (static_cast_to W32 (int (a_offset input)) * fixed_size_width);
                     r = fold (fixed_to_view_ref_slot fixed_size_width data (a_offset output'))
                           [0 ..< a_length input] (views output', data_offset)
                 in Inr (output'\<lparr>views := fst r\<rparr>))))"

subsection \<open>Fixed-size binary to offset string\<close>

text \<open>The offsets are written into the output's preallocated offsets buffer, from the
  output's own start offset on.\<close>

definition fixed_to_offset_slot ::
  "offset_width \<Rightarrow> int \<Rightarrow> nat \<Rightarrow> nat \<Rightarrow> int list \<Rightarrow> int list" where
  "fixed_to_offset_slot w width out_offset i offsets =
     offsets[out_offset + (i + 1) := static_cast_to w (offsets ! (out_offset + i) + width)]"

definition BinaryToBinaryCastExec_fixed_to_offset ::
  "KernelContext \<Rightarrow> fixed_array \<Rightarrow> offset_array \<Rightarrow> status + offset_array" where
  "BinaryToBinaryCastExec_fixed_to_offset ctx input out =
     (case (if is_utf8 (a_type out) \<and> \<not> allow_invalid_utf8 (options ctx)
            then ArraySpanVisitor_Visit (array_slots GetView_fixed input)
            else Inr ()) of
        Inl e \<Rightarrow> Inl e
      | Inr _ \<Rightarrow>
          (let w = offset_type (a_type out);
               kMaxOffset = numeric_limits_max w;
               width = byte_width (a_type input);
               max_offset = width * int (a_length input)
           in if max_offset > kMaxOffset
              then Inl (Status Invalid (too_large_msg (a_type input) (a_type out)))
              else
                (let output = out\<lparr>a_length := a_length input,
                                    a_null_count := a_null_count input,
                                    a_validity :=
                                      (if a_offset input = a_offset out then a_validity input
                                       else (case a_validity input of
                                               None \<Rightarrow> a_validity out
                                             | Some bm \<Rightarrow>
                                                 Some (CopyBitmap bm (a_offset input)
                                                         (a_length input))))\<rparr>;
                     offsets0 = (value_offsets output)[a_offset output :=
                                   static_cast_to w (int (a_offset input) * width)];
                     offsets = fold (fixed_to_offset_slot w width (a_offset output))
                                 [0 ..< a_length input] offsets0
                 in Inr (output\<lparr>value_offsets := offsets,
                                  value_data :=
                                    (case fixed_data input of
                                       Some input_data \<Rightarrow>
                                         Some (CopySlice input_data 0
                                                 (length (bytes input_data)) (memory_pool ctx))
                                     | None \<Rightarrow> None)\<rparr>))))"

subsection \<open>Fixed-size binary to fixed-size binary\<close>

definition ZeroCopyCastExec_fixed :: "fixed_array \<Rightarrow> fixed_array \<Rightarrow> status + fixed_array" where
  "ZeroCopyCastExec_fixed input out = Inr (input\<lparr>a_type := a_type out\<rparr>)"

definition BinaryToBinaryCastExec_fixed_to_fixed ::
  "KernelContext \<Rightarrow> fixed_array \<Rightarrow> fixed_array \<Rightarrow> status + fixed_array" where
  "BinaryToBinaryCastExec_fixed_to_fixed ctx input out =
     (let in_width = byte_width (a_type input);
          out_width = byte_width (to_type (options ctx))
      in if in_width \<noteq> out_width
         then Inl (Status Invalid (widths_must_match_msg (a_type input) (to_type (options ctx))))
         else ZeroCopyCastExec_fixed input out)"

subsection \<open>Offset string or string view to fixed-size binary\<close>

text \<open>Modelled from the spec: the array builders (\<^verbatim>\<open>arrow/array/builder_binary.h\<close>) are
  not part of the source under study. A builder is the sequence of slots appended so far;
  appending never fails (allocation and builder capacity are outside the model). A finished
  fixed-width array starts at offset zero and lays every slot out on \<open>byte_width\<close> bytes,
  a null slot as zero bytes.\<close>

record 'b builder =
  b_type :: data_type
  b_slots :: "'b option list"

definition UnsafeAppend :: "'b builder \<Rightarrow> 'b \<Rightarrow> 'b builder" where
  "UnsafeAppend builder v = builder\<lparr>b_slots := b_slots builder @ [Some v]\<rparr>"

definition UnsafeAppendNull :: "'b builder \<Rightarrow> 'b builder" where
  "UnsafeAppendNull builder = builder\<lparr>b_slots := b_slots builder @ [None]\<rparr>"

definition Append :: "'b builder \<Rightarrow> 'b \<Rightarrow> status + 'b builder" where
  "Append builder v = Inr (UnsafeAppend builder v)"

definition AppendNull :: "'b builder \<Rightarrow> status + 'b builder" where
  "AppendNull builder = Inr (UnsafeAppendNull builder)"

definition fixed_slot_bytes :: "int \<Rightarrow> byte list option \<Rightarrow> byte list" where
  "fixed_slot_bytes w x = (case x of None \<Rightarrow> replicate (nat w) 0 | Some v \<Rightarrow> v)"

definition FinishInternal :: "byte list builder \<Rightarrow> nat \<Rightarrow> status + fixed_array" where
  "FinishInternal builder pool =
     Inr \<lparr>a_type = b_type builder, a_length = length (b_slots builder), a_offset = 0,
          a_null_count = int (length (filter (\<lambda>x. x = None) (b_slots builder))),
          a_validity = Some (map (\<lambda>x. x \<noteq> None) (b_slots builder)),
          fixed_data = Some \<lparr>address = pool,
                              bytes = concat (map (fixed_slot_bytes (byte_width (b_type builder)))
                                                (b_slots builder))\<rparr>\<rparr>"

text \<open>\<^verbatim>\<open>static_cast<size_t>(builder.byte_width())\<close>.\<close>

definition static_cast_size_t :: "int \<Rightarrow> int" where
  "static_cast_size_t x = x mod 18446744073709551616"

definition to_fixed_value ::
  "data_type \<Rightarrow> CastOptions \<Rightarrow> byte list \<Rightarrow> byte list builder \<Rightarrow> status + byte list builder" where
  "to_fixed_value input_type opts v builder =
     (if int (length v) \<noteq> static_cast_size_t (byte_width (b_type builder))
      then Inl (Status Invalid (widths_must_match_msg input_type (to_type opts)))
      else Inr (UnsafeAppend builder v))"

definition to_fixed_null :: "byte list builder \<Rightarrow> status + byte list builder" where
  "to_fixed_null builder = Inr (UnsafeAppendNull builder)"

text \<open>One template serves both source layouts; \<open>get\<close> is the slot reader of the input
  type \<^verbatim>\<open>I\<close> (\<open>GetView_offset\<close> or \<open>GetView_view\<close>).\<close>

definition BinaryToBinaryCastExec_to_fixed ::
  "('a array_header_scheme \<Rightarrow> nat \<Rightarrow> byte list) \<Rightarrow> KernelContext \<Rightarrow> 'a array_header_scheme
    \<Rightarrow> status + fixed_array" where
  "BinaryToBinaryCastExec_to_fixed get ctx input =
     (let builder = \<lparr>b_type = to_type (options ctx), b_slots = []\<rparr>
      in case VisitArraySpanInline (to_fixed_value (a_type input) (options ctx)) to_fixed_null
                (array_slots get input) builder of
           Inl e \<Rightarrow> Inl e
         | Inr builder' \<Rightarrow> FinishInternal builder' (memory_pool ctx))"

section \<open>Scalar-to-text renderer\<close>

text \<open>A primitive array: \<^verbatim>\<open>buffers[1]\<close> holds one value per slot of the parent buffer.
  The text builder's \<^verbatim>\<open>Finish\<close> yields the finished array, represented by its slots.\<close>

record 'v primitive_array = array_header +
  prim_values :: "'v list"

definition GetView_primitive :: "'v primitive_array \<Rightarrow> nat \<Rightarrow> 'v" where
  "GetView_primitive a i = prim_values a ! (a_offset a + i)"

definition Finish :: "string builder \<Rightarrow> status + string option list" where
  "Finish builder = Inr (b_slots builder)"

text \<open>\<^verbatim>\<open>NumericToStringCastFunctor::Exec\<close> and \<^verbatim>\<open>TemporalToStringCastFunctor::Exec\<close>
  (the primary template). The injected \<^verbatim>\<open>StringFormatter<I>\<close> is the parameter
  \<open>formatter\<close>: constructed from the input type, it renders one value and hands the text
  to the append callback.\<close>

definition NumericToStringCastFunctor_Exec ::
  "(data_type \<Rightarrow> 'v \<Rightarrow> string) \<Rightarrow> 'v primitive_array \<Rightarrow> status + string option list" where
  "NumericToStringCastFunctor_Exec formatter input =
     (let builder = \<lparr>b_type = a_type input, b_slots = []\<rparr>
      in case VisitArraySpanInline (\<lambda>v b. Append b (formatter (a_type input) v))
                (\<lambda>b. AppendNull b) (array_slots GetView_primitive input) builder of
           Inl e \<Rightarrow> Inl e
         | Inr builder' \<Rightarrow> Finish builder')"

definition TemporalToStringCastFunctor_Exec ::
  "(data_type \<Rightarrow> 'v \<Rightarrow> string) \<Rightarrow> 'v primitive_array \<Rightarrow> status + string option list" where
  "TemporalToStringCastFunctor_Exec formatter input =
     (let builder = \<lparr>b_type = a_type input, b_slots = []\<rparr>
      in case VisitArraySpanInline (\<lambda>v b. Append b (formatter (a_type input) v))
                (\<lambda>b. AppendNull b) (array_slots GetView_primitive input) builder of
           Inl e \<Rightarrow> Inl e
         | Inr builder' \<Rightarrow> Finish builder')"

text \<open>\<^verbatim>\<open>DecimalToStringCastFunctor::Exec\<close>: each fixed-width slot is reinterpreted as a
  decimal value (\<open>decode\<close>, the constructor of \<^verbatim>\<open>value_type\<close> from bytes) and formatted.\<close>

definition DecimalToStringCastFunctor_Exec ::
  "(data_type \<Rightarrow> 'd \<Rightarrow> string) \<Rightarrow> (byte list \<Rightarrow> 'd) \<Rightarrow> fixed_array
    \<Rightarrow> status + string option list" where
  "DecimalToStringCastFunctor_Exec formatter decode input =
     (let builder = \<lparr>b_type = a_type input, b_slots = []\<rparr>
      in case VisitArraySpanInline (\<lambda>bytes b. Append b (formatter (a_type input) (decode bytes)))
                (\<lambda>b. AppendNull b) (array_slots GetView_fixed input) builder of
           Inl e \<Rightarrow> Inl e
         | Inr builder' \<Rightarrow> Finish builder')"

subsection \<open>Timestamps\<close>

text \<open>Modelled from the spec: the text formatters (\<^verbatim>\<open>StringFormatter<TimestampType>\<close> of
  \<^verbatim>\<open>arrow/util/formatting.h\<close>, \<^verbatim>\<open>TimestampFormatter\<close> and \<^verbatim>\<open>LocateZone\<close> of
  \<^verbatim>\<open>temporal_internal.h\<close>) are not part of the source under study. An instant is a count
  of time units since 1970-01-01 00:00:00 UTC. Civil form is \<^verbatim>\<open>YYYY-MM-DD HH:MM:SS\<close> in the
  proleptic Gregorian calendar, followed by a fraction of 0, 3, 6 or 9 digits after a dot
  according to the unit. A resolved zone gives the offset from UTC, in seconds, that
  applies at an instant; the zone database is the parameter \<open>LocateZone\<close>.\<close>

type_synonym time_zone = "int \<Rightarrow> int"

fun units_per_second :: "time_unit \<Rightarrow> int" where
  "units_per_second SECOND = 1"
| "units_per_second MILLI = 1000"
| "units_per_second MICRO = 1000000"
| "units_per_second NANO = 1000000000"

fun fraction_digits :: "time_unit \<Rightarrow> nat" where
  "fraction_digits SECOND = 0"
| "fraction_digits MILLI = 3"
| "fraction_digits MICRO = 6"
| "fraction_digits NANO = 9"

definition digit_char :: "int \<Rightarrow> char" where
  "digit_char d = ''0123456789'' ! nat d"

fun pad_digits :: "nat \<Rightarrow> int \<Rightarrow> string" where
  "pad_digits 0 n = []"
| "pad_digits (Suc k) n = pad_digits k (n div 10) @ [digit_char (n mod 10)]"

text \<open>The civil date of a day number (days since 1970-01-01).\<close>

definition civil_from_days :: "int \<Rightarrow> int \<times> int \<times> int" where
  "civil_from_days days =
     (let z = days + 719468;
          era = z div 146097;
          doe = z - era * 146097;
          yoe = (doe - doe div 1460 + doe div 36524 - doe div 146096) div 365;
          doy = doe - (365 * yoe + yoe div 4 - yoe div 100);
          mp = (5 * doy + 2) div 153;
          d = doy - (153 * mp + 2) div 5 + 1;
          m = (if mp < 10 then mp + 3 else mp - 9);
          y = yoe + era * 400 + (if m \<le> 2 then 1 else 0)
      in (y, m, d))"

text \<open>A year prints with a sign when negative and on at least four digits.\<close>

function num_digits :: "int \<Rightarrow> nat" where
  "num_digits n = (if n < 10 then 1 else Suc (num_digits (n div 10)))"
  by pat_completeness auto
termination
  by (relation "measure nat") auto

definition format_year :: "int \<Rightarrow> string" where
  "format_year y =
     (if y < 0 then ''-'' else []) @ pad_digits (max 4 (num_digits \<bar>y\<bar>)) \<bar>y\<bar>"

definition format_fraction :: "time_unit \<Rightarrow> int \<Rightarrow> string" where
  "format_fraction unit frac =
     (if fraction_digits unit = 0 then []
      else ''.'' @ pad_digits (fraction_digits unit) frac)"

definition format_civil :: "time_unit \<Rightarrow> int \<Rightarrow> string" where
  "format_civil unit v =
     (let secs = v div units_per_second unit;
          frac = v mod units_per_second unit;
          days = secs div 86400;
          sod = secs mod 86400;
          ymd = civil_from_days days
      in format_year (fst ymd) @ ''-'' @ pad_digits 2 (fst (snd ymd)) @ ''-''
         @ pad_digits 2 (snd (snd ymd)) @ '' ''
         @ pad_digits 2 (sod div 3600) @ '':'' @ pad_digits 2 (sod mod 3600 div 60) @ '':''
         @ pad_digits 2 (sod mod 60) @ format_fraction unit frac)"

text \<open>The suffix \<^verbatim>\<open>%z\<close> prints: sign, two digits of hours, two digits of minutes.\<close>

definition format_offset :: "int \<Rightarrow> string" where
  "format_offset off =
     (if off < 0 then ''-'' else ''+'')
     @ pad_digits 2 (\<bar>off\<bar> div 3600) @ pad_digits 2 (\<bar>off\<bar> mod 3600 div 60)"

definition kFormatString :: string where
  "kFormatString = ''%Y-%m-%d %H:%M:%S%z''"

definition kUtcFormatString :: string where
  "kUtcFormatString = ''%Y-%m-%d %H:%M:%SZ''"

text \<open>\<^verbatim>\<open>StringFormatter<TimestampType>\<close>: the naive civil form of the instant.\<close>

definition StringFormatter_Timestamp :: "data_type \<Rightarrow> int \<Rightarrow> string" where
  "StringFormatter_Timestamp ty v =
     (case ty of TimestampType unit tz \<Rightarrow> format_civil unit v | _ \<Rightarrow> [])"

text \<open>\<^verbatim>\<open>TimestampFormatter<Duration>{format, tz, locale}\<close> applied to an instant: the
  civil time in the zone, then what the format puts after the seconds, the zone's offset
  for \<^verbatim>\<open>%z\<close> and the letter for a literal \<^verbatim>\<open>Z\<close>.\<close>

definition TimestampFormatter :: "time_unit \<Rightarrow> string \<Rightarrow> time_zone \<Rightarrow> int \<Rightarrow> status + string" where
  "TimestampFormatter unit format tz v =
     (let off = tz (v div units_per_second unit)
      in Inr (format_civil unit (v + off * units_per_second unit)
              @ (if format = kUtcFormatString then ''Z'' else format_offset off)))"

definition GetInputTimezone :: "data_type \<Rightarrow> string" where
  "GetInputTimezone ty = (case ty of TimestampType unit tz \<Rightarrow> tz | _ \<Rightarrow> [])"

definition timestamp_unit :: "data_type \<Rightarrow> time_unit" where
  "timestamp_unit ty = (case ty of TimestampType unit tz \<Rightarrow> unit | _ \<Rightarrow> SECOND)"

text \<open>\<^verbatim>\<open>ConvertZoned<Duration>\<close>; the duration type is given by its unit. The zone is
  located before any slot is visited; the \<^verbatim>\<open>C\<close> locale is taken to be available.\<close>

definition ConvertZoned ::
  "(string \<Rightarrow> status + time_zone) \<Rightarrow> time_unit \<Rightarrow> int primitive_array \<Rightarrow> string
    \<Rightarrow> string builder \<Rightarrow> status + string builder" where
  "ConvertZoned LocateZone duration input timezone builder =
     (case LocateZone timezone of
        Inl e \<Rightarrow> Inl e
      | Inr tz \<Rightarrow>
          VisitArraySpanInline
            (\<lambda>v b. case TimestampFormatter duration
                           (if timezone = ''UTC'' then kUtcFormatString else kFormatString)
                           tz v of
                      Inl e \<Rightarrow> Inl e
                    | Inr formatted \<Rightarrow> Append b formatted)
            (\<lambda>b. Inr (UnsafeAppendNull b))
            (array_slots GetView_primitive input) builder)"

text \<open>\<^verbatim>\<open>TemporalToStringCastFunctor<O, TimestampType>::Exec\<close>. The reservations of the
  builder do not change the result. Every value of \<open>time_unit\<close> has its case, so the
  \<^verbatim>\<open>default\<close> branch of the switch is not reached.\<close>

definition TimestampToString_Exec ::
  "(string \<Rightarrow> status + time_zone) \<Rightarrow> int primitive_array \<Rightarrow> status + string option list" where
  "TimestampToString_Exec LocateZone input =
     (let timezone = GetInputTimezone (a_type input);
          unit = timestamp_unit (a_type input);
          builder = \<lparr>b_type = a_type input, b_slots = []\<rparr>
      in case (if timezone = []
               then VisitArraySpanInline
                      (\<lambda>v b. Append b (StringFormatter_Timestamp (a_type input) v))
                      (\<lambda>b. Inr (UnsafeAppendNull b))
                      (array_slots GetView_primitive input) builder
               else (case unit of
                       SECOND \<Rightarrow> ConvertZoned LocateZone SECOND input timezone builder
                     | MILLI \<Rightarrow> ConvertZoned LocateZone MILLI input timezone builder
                     | MICRO \<Rightarrow> ConvertZoned LocateZone MICRO input timezone builder
                     | NANO \<Rightarrow> ConvertZoned LocateZone NANO input timezone builder)) of
           Inl e \<Rightarrow> Inl e
         | Inr builder' \<Rightarrow> Finish builder')"

section \<open>Notions used to state the properties\<close>

text \<open>A well-formed offset-layout array: \<open>length + 1\<close> offsets from the start offset on,
  non-decreasing and non-negative, the last one within the data buffer and within the range
  of the offset type, and a validity bitmap (if any) that covers the array.\<close>

definition wf_offset_array :: "offset_array \<Rightarrow> bool" where
  "wf_offset_array a \<longleftrightarrow>
     a_length a < length (GetValues_offsets a)
   \<and> sorted (take (a_length a + 1) (GetValues_offsets a))
   \<and> 0 \<le> GetValues_offsets a ! 0
   \<and> GetValues_offsets a ! a_length a \<le> int (length (buffer_bytes (value_data a)))
   \<and> GetValues_offsets a ! a_length a \<le> numeric_limits_max (offset_type (a_type a))
   \<and> (case a_validity a of None \<Rightarrow> True | Some bm \<Rightarrow> a_offset a + a_length a \<le> length bm)"

text \<open>A well-formed fixed-width array: a non-negative element width, a data buffer that
  holds every element up to the end of the array, and a validity bitmap (if any) that
  covers the array.\<close>

definition wf_fixed_array :: "fixed_array \<Rightarrow> bool" where
  "wf_fixed_array a \<longleftrightarrow>
     0 \<le> byte_width (a_type a)
   \<and> (int (a_offset a) + int (a_length a)) * byte_width (a_type a)
       \<le> int (length (buffer_bytes (fixed_data a)))
   \<and> (case a_validity a of None \<Rightarrow> True | Some bm \<Rightarrow> a_offset a + a_length a \<le> length bm)"

text \<open>The positions of the set bits of a bitmap, counted from \<open>pos\<close>.\<close>

fun set_positions :: "bool list \<Rightarrow> nat \<Rightarrow> nat list" where
  "set_positions [] pos = []"
| "set_positions (b # bs) pos = (if b then [pos] else []) @ set_positions bs (Suc pos)"

definition valid_indices :: "'a array_header_scheme \<Rightarrow> nat list" where
  "valid_indices a = filter (IsValid a) [0 ..< a_length a]"

text \<open>The byte length of slot \<open>i\<close> as the offset-to-view loop computes it, and the view it
  writes for that slot.\<close>

definition slot_length :: "offset_width \<Rightarrow> int list \<Rightarrow> nat \<Rightarrow> int" where
  "slot_length w input_offsets i =
     static_cast_to w (input_offsets ! (i + 1) - input_offsets ! i)"

definition slot_view :: "offset_width \<Rightarrow> int list \<Rightarrow> byte list \<Rightarrow> nat \<Rightarrow> c_type" where
  "slot_view w input_offsets input_data i =
     (if slot_length w input_offsets i \<le> kInlineSize
      then Inlined (static_cast_to W32 (slot_length w input_offsets i))
             (inline_data (slice input_data (input_offsets ! i) (slot_length w input_offsets i)))
      else Ref (static_cast_to W32 (slot_length w input_offsets i))
             (slice input_data (input_offsets ! i) (int kPrefixSize)) 0
             (static_cast_to W32 (input_offsets ! i)))"

text \<open>The bytes a slot contributes to a data buffer, and the number of bytes the first
  \<open>k\<close> slots contribute together.\<close>

definition payload :: "'b list option \<Rightarrow> 'b list" where
  "payload x = (case x of None \<Rightarrow> [] | Some s \<Rightarrow> s)"

definition prefix_len :: "'b list option list \<Rightarrow> nat \<Rightarrow> nat" where
  "prefix_len xs k = length (concat (map payload (take k xs)))"

text \<open>The view the fixed-to-view loops write for an element that starts at byte \<open>pos\<close>
  of the data buffer.\<close>

definition fixed_view :: "int \<Rightarrow> byte list \<Rightarrow> int \<Rightarrow> c_type" where
  "fixed_view fixed_size_width data pos =
     (if fixed_size_width \<le> kInlineSize
      then Inlined fixed_size_width (inline_data (slice data pos fixed_size_width))
      else Ref fixed_size_width (slice data pos (int kPrefixSize)) 0 (static_cast_to W32 pos))"

text \<open>Some non-null slot has a byte length other than \<open>w\<close>.\<close>

definition width_mismatch :: "int \<Rightarrow> byte list option list \<Rightarrow> bool" where
  "width_mismatch w slots =
     list_ex (\<lambda>x. case x of None \<Rightarrow> False | Some v \<Rightarrow> int (length v) \<noteq> w) slots"



text \<open>The result array \<open>r\<close> has a null exactly where the source array \<open>a\<close> has one.\<close>

definition nulls_preserved :: "'a array_header_scheme \<Rightarrow> 'b array_header_scheme \<Rightarrow> bool" where
  "nulls_preserved a r = list_all (\<lambda>i. IsValid r i = IsValid a i) [0 ..< a_length a]"

text \<open>The text of an instant in a resolved zone: the civil time in the zone, then the
  letter \<open>Z\<close> when the zone's name is exactly \<open>UTC\<close> and the zone's offset otherwise.\<close>

definition zoned_text :: "time_unit \<Rightarrow> string \<Rightarrow> time_zone \<Rightarrow> int \<Rightarrow> string" where
  "zoned_text unit timezone tz v =
     format_civil unit (v + tz (v div units_per_second unit) * units_per_second unit)
     @ (if timezone = ''UTC'' then ''Z'' else format_offset (tz (v div units_per_second unit)))"

section \<open>Example inputs\<close>

text \<open>A kernel context that validates UTF-8 and one that does not.\<close>

definition ctx_strict :: KernelContext where
  "ctx_strict = \<lparr>options = \<lparr>to_type = BinaryType, allow_invalid_utf8 = False\<rparr>,
                  memory_pool = 100\<rparr>"


text \<open>The output arrays the invocation layer hands to a kernel: the requested type,
  start offset zero, no buffers yet.\<close>

definition offset_out :: "data_type \<Rightarrow> offset_array" where
  "offset_out ty =
     \<lparr>a_type = ty, a_length = 0, a_offset = 0, a_null_count = 0, a_validity = None,
      value_offsets = [], value_data = None\<rparr>"

definition view_out :: "data_type \<Rightarrow> view_array" where
  "view_out ty =
     \<lparr>a_type = ty, a_length = 0, a_offset = 0, a_null_count = 0, a_validity = None,
      views = [], variadic = []\<rparr>"

text \<open>A large-binary array with one slot of \<open>2 ^ 31\<close> zero bytes, and one with one slot
  of \<open>2 ^ 31 - 1\<close> zero bytes.\<close>

definition large_binary_2gib :: offset_array where
  "large_binary_2gib =
     \<lparr>a_type = LargeBinaryType, a_length = 1, a_offset = 0, a_null_count = 0,
      a_validity = None, value_offsets = [0, 2147483648],
      value_data = Some \<lparr>address = 0, bytes = replicate 2147483648 0\<rparr>\<rparr>"

definition large_binary_max :: offset_array where
  "large_binary_max =
     \<lparr>a_type = LargeBinaryType, a_length = 1, a_offset = 0, a_null_count = 0,
      a_validity = None, value_offsets = [0, 2147483647],
      value_data = Some \<lparr>address = 0, bytes = replicate 2147483647 0\<rparr>\<rparr>"

text \<open>A binary array sliced out of a parent at slot 1: \<^verbatim>\<open>"ab"\<close>, a null, and a
  14-byte value.\<close>

definition sliced_binary :: offset_array where
  "sliced_binary =
     \<lparr>a_type = BinaryType, a_length = 3, a_offset = 1, a_null_count = 1,
      a_validity = Some [True, True, False, True],
      value_offsets = [0, 3, 5, 5, 19],
      value_data = Some \<lparr>address = 7, bytes =
        [0x78, 0x79, 0x7A, 0x61, 0x62,
         0x41, 0x42, 0x43, 0x44, 0x45, 0x46, 0x47, 0x48, 0x49, 0x4A, 0x4B, 0x4C, 0x4D, 0x4E]\<rparr>\<rparr>"



text \<open>Fixed-size binary arrays: two elements of 12 bytes sliced out of a parent at
  element 1, the second one null; two elements of 13 bytes; and an empty array of 13-byte
  elements. With each, the view array the fixed-to-view conversion makes of it.\<close>

definition fixed12 :: fixed_array where
  "fixed12 =
     \<lparr>a_type = FixedSizeBinaryType 12, a_length = 2, a_offset = 1, a_null_count = 1,
      a_validity = Some [True, True, False],
      fixed_data = Some \<lparr>address = 3, bytes = map of_nat [0 ..< 36]\<rparr>\<rparr>"

definition fixed12_as_view :: view_array where
  "fixed12_as_view =
     \<lparr>a_type = BinaryViewType, a_length = 2, a_offset = 1, a_null_count = 1,
      a_validity = Some [True, True, False],
      views = [Inlined 0 [0, 0, 0, 0, 0, 0, 0, 0, 0, 0, 0, 0],
               Inlined 12 [12, 13, 14, 15, 16, 17, 18, 19, 20, 21, 22, 23],
               Inlined 12 [24, 25, 26, 27, 28, 29, 30, 31, 32, 33, 34, 35]],
      variadic = [None]\<rparr>"

definition fixed13 :: fixed_array where
  "fixed13 =
     \<lparr>a_type = FixedSizeBinaryType 13, a_length = 2, a_offset = 0, a_null_count = 0,
      a_validity = None,
      fixed_data = Some \<lparr>address = 4, bytes = map of_nat [100 ..< 126]\<rparr>\<rparr>"

definition fixed13_as_view :: view_array where
  "fixed13_as_view =
     \<lparr>a_type = BinaryViewType, a_length = 2, a_offset = 0, a_null_count = 0,
      a_validity = None,
      views = [Ref 13 [100, 101, 102, 103] 0 0, Ref 13 [113, 114, 115, 116] 0 13],
      variadic = [Some \<lparr>address = 4, bytes = map of_nat [100 ..< 126]\<rparr>]\<rparr>"

definition empty_fixed13 :: fixed_array where
  "empty_fixed13 =
     \<lparr>a_type = FixedSizeBinaryType 13, a_length = 0, a_offset = 0, a_null_count = 0,
      a_validity = None, fixed_data = Some \<lparr>address = 5, bytes = []\<rparr>\<rparr>"

text \<open>The view array the offset-to-view conversion makes of \<open>sliced_binary\<close>.\<close>

definition sliced_binary_as_view :: view_array where
  "sliced_binary_as_view =
     \<lparr>a_type = BinaryViewType, a_length = 3, a_offset = 1, a_null_count = 1,
      a_validity = Some [True, True, False, True],
      views = [Inlined 0 [0, 0, 0, 0, 0, 0, 0, 0, 0, 0, 0, 0],
               Inlined 2 [0x61, 0x62, 0, 0, 0, 0, 0, 0, 0, 0, 0, 0],
               Inlined 0 [0, 0, 0, 0, 0, 0, 0, 0, 0, 0, 0, 0],
               Ref 14 [0x41, 0x42, 0x43, 0x44] 0 5],
      variadic = [value_data sliced_binary]\<rparr>"

text \<open>One element of 16 bytes, sliced out of a parent of \<open>2 ^ 27 + 1\<close> elements at
  element \<open>2 ^ 27\<close>: the element starts at byte \<open>2 ^ 31\<close> of the data buffer.\<close>

definition fixed16_sliced :: fixed_array where
  "fixed16_sliced =
     \<lparr>a_type = FixedSizeBinaryType 16, a_length = 1, a_offset = 134217728, a_null_count = 0,
      a_validity = None,
      fixed_data = Some \<lparr>address = 0, bytes = replicate 2147483664 0\<rparr>\<rparr>"

text \<open>The strings \<^verbatim>\<open>"ab"\<close>, \<^verbatim>\<open>"abc"\<close>, \<^verbatim>\<open>"de"\<close>; the same buffers with the second
  slot null; and a context that asks for fixed-size binary of width 2.\<close>

definition strings_ab_abc_de :: offset_array where
  "strings_ab_abc_de =
     \<lparr>a_type = StringType, a_length = 3, a_offset = 0, a_null_count = 0,
      a_validity = None, value_offsets = [0, 2, 5, 7],
      value_data = Some \<lparr>address = 8, bytes = [0x61, 0x62, 0x61, 0x62, 0x63, 0x64, 0x65]\<rparr>\<rparr>"

definition strings_ab_null_de :: offset_array where
  "strings_ab_null_de =
     strings_ab_abc_de\<lparr>a_null_count := 1, a_validity := Some [True, False, True]\<rparr>"

definition ctx_fixed2 :: KernelContext where
  "ctx_fixed2 = \<lparr>options = \<lparr>to_type = FixedSizeBinaryType 2, allow_invalid_utf8 = False\<rparr>,
                 memory_pool = 100\<rparr>"




text \<open>The offset array the view-to-offset conversion makes of \<open>sliced_binary_as_view\<close>,
  the offset array the fixed-to-offset conversion makes of \<open>fixed12\<close>, and the fixed-size
  array the conversion to width 2 makes of \<open>strings_ab_null_de\<close>.\<close>

definition sliced_binary_back :: offset_array where
  "sliced_binary_back =
     \<lparr>a_type = BinaryType, a_length = 3, a_offset = 0, a_null_count = 1,
      a_validity = Some [True, False, True], value_offsets = [0, 2, 2, 16],
      value_data = Some \<lparr>address = 100, bytes =
        [0x61, 0x62,
         0x41, 0x42, 0x43, 0x44, 0x45, 0x46, 0x47, 0x48, 0x49, 0x4A, 0x4B, 0x4C, 0x4D, 0x4E]\<rparr>\<rparr>"

definition fixed12_as_offset :: offset_array where
  "fixed12_as_offset =
     \<lparr>a_type = BinaryType, a_length = 2, a_offset = 0, a_null_count = 1,
      a_validity = Some [True, False], value_offsets = [12, 24, 36],
      value_data = Some \<lparr>address = 100, bytes = map of_nat [0 ..< 36]\<rparr>\<rparr>"

definition ab_null_de_as_fixed :: fixed_array where
  "ab_null_de_as_fixed =
     \<lparr>a_type = FixedSizeBinaryType 2, a_length = 3, a_offset = 0, a_null_count = 1,
      a_validity = Some [True, False, True],
      fixed_data = Some \<lparr>address = 100, bytes = [0x61, 0x62, 0, 0, 0x64, 0x65]\<rparr>\<rparr>"

definition ctx_fixed12 :: KernelContext where
  "ctx_fixed12 = \<lparr>options = \<lparr>to_type = FixedSizeBinaryType 12, allow_invalid_utf8 = False\<rparr>,
                  memory_pool = 100\<rparr>"

text \<open>A zone database with two entries, a timestamp column of two slots (the instant
  2021-01-01 00:00:00 UTC and a null), and a column of numbers with a null.\<close>

definition zones :: "string \<Rightarrow> status + time_zone" where
  "zones name =
     (if name = ''UTC'' then Inr (\<lambda>t. 0)
      else if name = ''Asia/Kolkata'' then Inr (\<lambda>t. 19800)
      else Inl (Status Invalid [Str ''Cannot locate timezone '', Str name]))"

definition timestamps :: "time_unit \<Rightarrow> string \<Rightarrow> int primitive_array" where
  "timestamps unit tz =
     \<lparr>a_type = TimestampType unit tz, a_length = 2, a_offset = 0, a_null_count = 1,
      a_validity = Some [True, False], prim_values = [1609459200, 0]\<rparr>"

definition numbers :: "int primitive_array" where
  "numbers =
     \<lparr>a_type = Int64Type, a_length = 3, a_offset = 1, a_null_count = 1,
      a_validity = Some [True, True, False, True], prim_values = [7, 42, 0, 5]\<rparr>"

section \<open>Narrowing the offsets\<close>

lemma CastInts_W32_id:
  assumes "sorted xs" and "xs \<noteq> []" and "0 \<le> hd xs" and "last xs \<le> 2147483647"
  shows "CastInts W32 xs = xs"
proof -
  have "static_cast_to W32 x = x" if mem: "x \<in> set xs" for x
  proof -
    from mem obtain k where k: "k < length xs" "xs ! k = x"
      by (auto simp: in_set_conv_nth)
    have "xs ! 0 \<le> xs ! k" using assms(1) k(1) by (intro sorted_nth_mono) auto
    moreover have "xs ! k \<le> xs ! (length xs - 1)"
      using assms(1) k(1) by (intro sorted_nth_mono) auto
    ultimately have "0 \<le> x" "x \<le> 2147483647"
      using assms(2,3,4) k(2) by (simp_all add: hd_conv_nth last_conv_nth)
    then show ?thesis by simp
  qed
  then show ?thesis by (simp add: CastInts_def map_idI)
qed

text \<open>
  C1 (as amended). A 64-bit offsets array is narrowed to 32 bits by checking only the final
  offset. If it exceeds \<open>2 ^ 31 - 1\<close> the conversion fails with status \<open>Invalid\<close>, the
  message naming the source and the destination type. If it is at most \<open>2 ^ 31 - 1\<close>
  (so also when it is exactly that) the conversion succeeds, and for non-decreasing,
  non-negative offsets the new offsets buffer holds the source offsets unchanged after the
  zero padding for the array's start offset.
\<close>

theorem narrow_offsets_checks_last_offset:
  assumes "a_length output = a_length input"
    and "a_length input < length (GetValues_offsets input)"
    and "sorted (take (a_length input + 1) (GetValues_offsets input))"
    and "0 \<le> GetValues_offsets input ! 0"
  shows "(2147483647 < GetValues_offsets input ! a_length input \<longrightarrow>
           CastBinaryToBinaryOffsets W64 W32 ctx input output =
             Inl (Status Invalid [Str ''Failed casting from '', TypeName (a_type input),
                    Str '' to '', TypeName (a_type output), Str '': input array too large'']))
       \<and> (GetValues_offsets input ! a_length input \<le> 2147483647 \<longrightarrow>
           CastBinaryToBinaryOffsets W64 W32 ctx input output =
             Inr (output\<lparr>value_offsets := replicate (a_offset output) 0
                    @ take (a_length input + 1) (GetValues_offsets input)\<rparr>))"
proof -
  let ?offs = "take (a_length input + 1) (GetValues_offsets input)"
  have ne: "?offs \<noteq> []" using assms(2) by auto
  have hd: "hd ?offs = GetValues_offsets input ! 0"
    using assms(2) by (cases "GetValues_offsets input") auto
  have lst: "last ?offs = GetValues_offsets input ! a_length input"
    using assms(2) by (simp add: take_Suc_conv_app_nth)
  have "CastInts W32 ?offs = ?offs" if "GetValues_offsets input ! a_length input \<le> 2147483647"
    using CastInts_W32_id [OF assms(3) ne] hd lst assms(4) that by simp
  then show ?thesis
    by (simp add: too_large_msg_def Let_def assms(1))
qed

theorem narrow_offsets_witness:
  "CastBinaryToBinaryOffsets W64 W32 ctx_strict large_binary_max
       (large_binary_max\<lparr>a_type := BinaryType\<rparr>)
     = Inr (large_binary_max\<lparr>a_type := BinaryType\<rparr>)
   \<and> CastBinaryToBinaryOffsets W64 W32 ctx_strict large_binary_2gib
       (large_binary_2gib\<lparr>a_type := BinaryType\<rparr>)
     = Inl (Status Invalid [Str ''Failed casting from '', TypeName LargeBinaryType,
              Str '' to '', TypeName BinaryType, Str '': input array too large''])"
proof -
  have a: "a_length (large_binary_max\<lparr>a_type := BinaryType\<rparr>) = a_length large_binary_max"
    by simp
  have b: "a_length large_binary_max < length (GetValues_offsets large_binary_max)"
    by (simp add: large_binary_max_def GetValues_offsets_def)
  have c: "sorted (take (a_length large_binary_max + 1) (GetValues_offsets large_binary_max))"
    by (simp add: large_binary_max_def GetValues_offsets_def)
  have d: "0 \<le> GetValues_offsets large_binary_max ! 0"
    by (simp add: large_binary_max_def GetValues_offsets_def)
  have a': "a_length (large_binary_2gib\<lparr>a_type := BinaryType\<rparr>) = a_length large_binary_2gib"
    by simp
  have b': "a_length large_binary_2gib < length (GetValues_offsets large_binary_2gib)"
    by (simp add: large_binary_2gib_def GetValues_offsets_def)
  have c': "sorted (take (a_length large_binary_2gib + 1) (GetValues_offsets large_binary_2gib))"
    by (simp add: large_binary_2gib_def GetValues_offsets_def)
  have d': "0 \<le> GetValues_offsets large_binary_2gib ! 0"
    by (simp add: large_binary_2gib_def GetValues_offsets_def)
  show ?thesis
    using narrow_offsets_checks_last_offset [OF a b c d, of ctx_strict]
      narrow_offsets_checks_last_offset [OF a' b' c' d', of ctx_strict]
    by (simp add: large_binary_max_def large_binary_2gib_def GetValues_offsets_def)
qed

text \<open>The kernel for large-binary to binary on an array whose final offset is \<open>2 ^ 31\<close>:
  the status is \<open>Invalid\<close>, not \<open>CapacityError\<close>.\<close>

theorem narrow_offsets_status_counterexample:
  "BinaryToBinaryCastExec_offset_to_offset ctx_strict large_binary_2gib (offset_out BinaryType)
     = Inl (Status Invalid [Str ''Failed casting from '', TypeName LargeBinaryType,
              Str '' to '', TypeName BinaryType, Str '': input array too large''])
   \<and> Invalid \<noteq> CapacityError"
  by (simp add: BinaryToBinaryCastExec_offset_to_offset_def ctx_strict_def
      large_binary_2gib_def offset_out_def ZeroCopyCastExec_offset_def GetValues_offsets_def
      too_large_msg_def)

section \<open>The UTF-8 validator as a predicate on the slots\<close>

lemma VisitArraySpanInline_validator:
  "VisitArraySpanInline VisitValue VisitNull slots () =
     (if \<exists>v. Some v \<in> set slots \<and> \<not> ValidateUTF8Inline v
      then Inl (Status Invalid [Str ''Invalid UTF8 payload'']) else Inr ())"
proof (induction slots)
  case Nil
  then show ?case by simp
next
  case (Cons x xs)
  then show ?case
    by (cases x) (auto simp: VisitNull_def VisitValue_def)
qed

lemma ArraySpanVisitor_Visit_eq:
  "ArraySpanVisitor_Visit slots =
     (if \<exists>v. Some v \<in> set slots \<and> \<not> ValidateUTF8Inline v
      then Inl (Status Invalid [Str ''Invalid UTF8 payload'']) else Inr ())"
  by (simp add: ArraySpanVisitor_Visit_def VisitArraySpanInline_validator)

section \<open>Offset layout to view layout and back\<close>

lemma upt_run_Cons: "[pos ..< pos + (l + 1)] = pos # [Suc pos ..< Suc pos + l]"
  by (subst upt_rec) simp

lemma fold_set_bit_runs:
  "fold (\<lambda>(p, l). fold f [p ..< p + l]) (set_bit_runs bs pos) s
     = fold f (set_positions bs pos) s"
proof (induction bs arbitrary: pos s)
  case Nil
  then show ?case by simp
next
  case (Cons b bs)
  show ?case
  proof (cases b)
    case False
    then show ?thesis using Cons.IH [of "Suc pos" s] by simp
  next
    case True
    have IH: "fold (\<lambda>(p, l). fold f [p ..< p + l]) (set_bit_runs bs (Suc pos)) (f pos s)
       = fold f (set_positions bs (Suc pos)) (f pos s)"
      by (rule Cons.IH)
    have lhs: "fold (\<lambda>(p, l). fold f [p ..< p + l]) (set_bit_runs (b # bs) pos) s
       = fold (\<lambda>(p, l). fold f [p ..< p + l]) (set_bit_runs bs (Suc pos)) (f pos s)"
    proof (cases "set_bit_runs bs (Suc pos)")
      case Nil
      then show ?thesis using True by simp
    next
      case (Cons r rest)
      obtain s0 l0 where r: "r = (s0, l0)" by (cases r)
      show ?thesis
      proof (cases "s0 = Suc pos")
        case True
        then show ?thesis using \<open>b\<close> Cons r
          by (simp del: upt_Suc add: upt_run_Cons [simplified])
      next
        case False
        then show ?thesis using \<open>b\<close> Cons r by simp
      qed
    qed
    show ?thesis using lhs IH True by simp
  qed
qed

lemma set_positions_filter:
  "set_positions bs pos = map (\<lambda>i. pos + i) (filter (\<lambda>i. bs ! i) [0 ..< length bs])"
proof (induction bs arbitrary: pos)
  case Nil
  then show ?case by simp
next
  case (Cons b bs)
  have upt: "[0 ..< length (b # bs)] = 0 # map Suc [0 ..< length bs]"
    by (simp add: upt_conv_Cons map_Suc_upt del: upt_Suc)
  show ?case
    unfolding upt using Cons.IH [of "Suc pos"]
    by (simp add: filter_map comp_def)
qed

lemma VisitSetBitRunsVoid_fold:
  assumes "case bitmap of None \<Rightarrow> True | Some bm \<Rightarrow> off + len \<le> length bm"
  shows "VisitSetBitRunsVoid bitmap off len (\<lambda>p l. fold f [p ..< p + l]) s
     = fold f (filter (\<lambda>i. case bitmap of None \<Rightarrow> True | Some bm \<Rightarrow> bm ! (off + i)) [0 ..< len]) s"
proof (cases bitmap)
  case None
  then show ?thesis by (simp add: VisitSetBitRunsVoid_def)
next
  case (Some bm)
  have len: "length (take len (drop off bm)) = len" using assms Some by simp
  have "filter (\<lambda>i. take len (drop off bm) ! i) [0 ..< len]
      = filter (\<lambda>i. bm ! (off + i)) [0 ..< len]"
    using assms Some by (intro filter_cong) auto
  then show ?thesis
    using Some fold_set_bit_runs [of f "take len (drop off bm)" 0 s] len
    by (simp add: VisitSetBitRunsVoid_def set_positions_filter)
qed

lemma static_cast_to_id:
  "- numeric_limits_max w - 1 \<le> x \<Longrightarrow> x \<le> numeric_limits_max w \<Longrightarrow> static_cast_to w x = x"
  by (cases w) simp_all

lemma static_cast_W32_id: "0 \<le> x \<Longrightarrow> x \<le> 2147483647 \<Longrightarrow> static_cast_to W32 x = x"
  by simp

lemma offset_to_view_slot_eq:
  "offset_to_view_slot w io d off i st =
     ((fst st)[off + i := slot_view w io d i], snd st \<and> slot_length w io i \<le> kInlineSize)"
  by (simp add: offset_to_view_slot_def slot_view_def slot_length_def Let_def)

lemma fold_offset_to_view_slot:
  "fold (offset_to_view_slot w io d off) is (vs, fl) =
     (fold (\<lambda>i vs. vs[off + i := slot_view w io d i]) is vs,
      fl \<and> (\<forall>i \<in> set is. slot_length w io i \<le> kInlineSize))"
  by (induction "is" arbitrary: vs fl) (auto simp: offset_to_view_slot_eq)

lemma length_fold_update:
  "length (fold (\<lambda>i vs. vs[off + i := g i]) is vs) = length vs"
  by (induction "is" arbitrary: vs) auto

lemma nth_fold_update:
  "off + j < length vs \<Longrightarrow>
     fold (\<lambda>i vs. vs[off + i := g i]) is vs ! (off + j)
       = (if j \<in> set is then g j else vs ! (off + j))"
proof (induction "is" arbitrary: vs)
  case Nil
  then show ?case by simp
next
  case (Cons i "is")
  have "off + j < length (vs[off + i := g i])" using Cons.prems by simp
  from Cons.IH [OF this] show ?case
    using Cons.prems by (auto simp: nth_list_update)
qed

lemma sorted_take_nth_mono:
  assumes "sorted (take (n + 1) xs)" and "n < length xs" and "i \<le> j" and "j \<le> n"
  shows "xs ! i \<le> xs ! j"
proof -
  have "take (n + 1) xs ! i \<le> take (n + 1) xs ! j"
    using assms by (intro sorted_nth_mono) auto
  then show ?thesis using assms by simp
qed

lemma offset_to_view_Inr:
  assumes ok: "BinaryToBinaryCastExec_offset_to_view ctx a out = Inr v"
    and bm: "case a_validity a of None \<Rightarrow> True | Some bm \<Rightarrow> a_offset a + a_length a \<le> length bm"
  shows "v = \<lparr>a_type = a_type out, a_length = a_length a, a_offset = a_offset a,
               a_null_count = a_null_count a, a_validity = a_validity a,
               views = fold (\<lambda>i vs. vs[a_offset a + i :=
                          slot_view (offset_type (a_type a)) (GetValues_offsets a)
                            (buffer_bytes (value_data a)) i])
                        (valid_indices a) (replicate (a_offset a + a_length a) empty_view),
               variadic = [if \<forall>i \<in> set (valid_indices a).
                               slot_length (offset_type (a_type a)) (GetValues_offsets a) i
                                 \<le> kInlineSize
                           then None else value_data a]\<rparr>"
    and "offset_type (a_type a) = W64 \<Longrightarrow> 0 < a_offset a + a_length a \<Longrightarrow>
           GetValues_offsets a ! a_length a \<le> 2147483647"
proof -
  let ?w = "offset_type (a_type a)"
  let ?f = "offset_to_view_slot ?w (GetValues_offsets a) (buffer_bytes (value_data a)) (a_offset a)"
  have vis: "VisitSetBitRunsVoid (a_validity a) (a_offset a) (a_length a)
               (\<lambda>p l. fold ?f [p ..< p + l]) s
             = fold ?f (valid_indices a) s" for s
    unfolding VisitSetBitRunsVoid_fold [OF bm] valid_indices_def IsValid_def ..
  show "v = \<lparr>a_type = a_type out, a_length = a_length a, a_offset = a_offset a,
               a_null_count = a_null_count a, a_validity = a_validity a,
               views = fold (\<lambda>i vs. vs[a_offset a + i :=
                          slot_view (offset_type (a_type a)) (GetValues_offsets a)
                            (buffer_bytes (value_data a)) i])
                        (valid_indices a) (replicate (a_offset a + a_length a) empty_view),
               variadic = [if \<forall>i \<in> set (valid_indices a).
                               slot_length (offset_type (a_type a)) (GetValues_offsets a) i
                                 \<le> kInlineSize
                           then None else value_data a]\<rparr>"
    using ok
    by (auto simp add: BinaryToBinaryCastExec_offset_to_view_def ZeroCopyCastExec_offset_to_view_def
        Let_def vis fold_offset_to_view_slot split: sum.splits if_splits)
  show "GetValues_offsets a ! a_length a \<le> 2147483647"
    if "offset_type (a_type a) = W64" "0 < a_offset a + a_length a"
    using ok that
    by (simp add: BinaryToBinaryCastExec_offset_to_view_def ZeroCopyCastExec_offset_to_view_def
        Let_def split: sum.splits if_splits)
qed

lemma view_bytes_slot_view:
  assumes pos: "0 \<le> io ! i" and mono: "io ! i \<le> io ! (i + 1)"
    and top: "io ! (i + 1) \<le> 2147483647" and data: "io ! (i + 1) \<le> int (length d)"
    and bufs: "\<not> slot_length w io i \<le> kInlineSize \<Longrightarrow> buffer_bytes (bufs ! 0) = d"
  shows "view_bytes bufs (slot_view w io d i) = slice d (io ! i) (io ! (i + 1) - io ! i)"
proof -
  let ?len = "io ! (i + 1) - io ! i"
  have len: "slot_length w io i = ?len"
    unfolding slot_length_def using pos mono top
    by (intro static_cast_to_id) (cases w; simp)+
  have c32: "static_cast_to W32 ?len = ?len" "static_cast_to W32 (io ! i) = io ! i"
    using pos mono top by simp_all
  show ?thesis
  proof (cases "?len \<le> kInlineSize")
    case True
    have "nat (io ! i) + nat ?len \<le> length d"
      using pos mono data by linarith
    then have "length (slice d (io ! i) ?len) = nat ?len"
      by (simp add: slice_def)
    then have "take (nat ?len) (inline_data (slice d (io ! i) ?len)) = slice d (io ! i) ?len"
      by (simp add: inline_data_def)
    then show ?thesis using True
      by (simp only: slot_view_def len c32 if_True view_bytes.simps)
  next
    case False
    then have "buffer_bytes (bufs ! 0) = d" using bufs len by simp
    then show ?thesis using False
      by (simp only: slot_view_def len c32 if_False view_bytes.simps) simp
  qed
qed

lemma offset_to_view_slots:
  assumes wf: "wf_offset_array a"
    and ok: "BinaryToBinaryCastExec_offset_to_view ctx a out = Inr v"
  shows "array_slots GetView_view v = array_slots GetView_offset a"
proof -
  let ?w = "offset_type (a_type a)"
  let ?io = "GetValues_offsets a"
  let ?d = "buffer_bytes (value_data a)"
  let ?n = "a_length a"
  have bm: "case a_validity a of None \<Rightarrow> True | Some bm \<Rightarrow> a_offset a + a_length a \<le> length bm"
    using wf by (simp add: wf_offset_array_def)
  note v = offset_to_view_Inr(1) [OF ok bm]
  have hdr: "a_length v = ?n" "a_offset v = a_offset a" "a_validity v = a_validity a"
    by (subst v, simp)+
  have valid: "IsValid v i = IsValid a i" for i
    by (simp add: IsValid_def hdr split: option.splits)
  have n_len: "?n < length ?io" and srt: "sorted (take (?n + 1) ?io)" and nonneg: "0 \<le> ?io ! 0"
    and data: "?io ! ?n \<le> int (length ?d)" and lim: "?io ! ?n \<le> numeric_limits_max ?w"
    using wf by (simp_all add: wf_offset_array_def)
  have top: "?io ! ?n \<le> 2147483647" if "0 < ?n"
  proof (cases ?w)
    case W32
    then show ?thesis using lim by simp
  next
    case W64
    then show ?thesis using offset_to_view_Inr(2) [OF ok bm] that by simp
  qed
  have slot: "GetView_view v i = GetView_offset a i" if i: "i < ?n" and iv: "IsValid a i" for i
  proof -
    have mem: "i \<in> set (valid_indices a)" using i iv by (simp add: valid_indices_def)
    have views: "views v ! (a_offset a + i) = slot_view ?w ?io ?d i"
      by (subst v) (simp add: nth_fold_update i mem)
    have var: "variadic v = [if \<forall>i \<in> set (valid_indices a). slot_length ?w ?io i \<le> kInlineSize
                           then None else value_data a]"
      by (subst v) simp
    have b1: "0 \<le> ?io ! i" using sorted_take_nth_mono [OF srt n_len, of 0 i] i nonneg by simp
    have b2: "?io ! i \<le> ?io ! (i + 1)" using sorted_take_nth_mono [OF srt n_len, of i "i + 1"] i by simp
    have b3: "?io ! (i + 1) \<le> ?io ! ?n" using sorted_take_nth_mono [OF srt n_len, of "i + 1" ?n] i by simp
    have b4: "?io ! (i + 1) \<le> 2147483647" using b3 top i by simp
    have b5: "?io ! (i + 1) \<le> int (length ?d)" using b3 data by simp
    have b6: "buffer_bytes (variadic v ! 0) = ?d" if "\<not> slot_length ?w ?io i \<le> kInlineSize"
      using that mem by (auto simp: var)
    have "view_bytes (variadic v) (slot_view ?w ?io ?d i) = slice ?d (?io ! i) (?io ! (i + 1) - ?io ! i)"
      by (rule view_bytes_slot_view [OF b1 b2 b4 b5 b6])
    then show ?thesis
      by (simp add: GetView_view_def GetView_offset_def hdr views Let_def)
  qed
  show ?thesis
    unfolding array_slots_def hdr
    by (rule map_cong) (auto simp: valid slot)
qed

lemma prefix_len_Cons: "prefix_len (x # xs) (Suc k) = length (payload x) + prefix_len xs k"
  by (simp add: prefix_len_def)

lemma prefix_len_0: "prefix_len xs 0 = 0"
  by (simp add: prefix_len_def)

lemma view_to_offset_builders:
  "VisitArraySpanInline_void (view_to_offset_value w) (view_to_offset_null w) xs (ob, db)
     = (ob @ map (\<lambda>k. static_cast_to w (int (length db + prefix_len xs (Suc k)))) [0 ..< length xs],
        db @ concat (map payload xs))"
proof (induction xs arbitrary: ob db)
  case Nil
  then show ?case by simp
next
  case (Cons x xs)
  have upt: "[0 ..< length (x # xs)] = 0 # map Suc [0 ..< length xs]"
    by (simp add: upt_conv_Cons map_Suc_upt del: upt_Suc)
  let ?db = "db @ payload x"
  have step: "VisitArraySpanInline_void (view_to_offset_value w) (view_to_offset_null w) (x # xs) (ob, db)
      = VisitArraySpanInline_void (view_to_offset_value w) (view_to_offset_null w) xs
          (ob @ [static_cast_to w (int (length ?db))], ?db)"
    by (cases x) (simp_all add: view_to_offset_null_def view_to_offset_value_def Let_def payload_def)
  show ?case
    unfolding step Cons.IH upt
    by (simp add: prefix_len_Cons prefix_len_0 comp_def add.assoc)
qed

lemma prefix_len_mono: "j \<le> k \<Longrightarrow> prefix_len xs j \<le> prefix_len xs k"
proof -
  assume "j \<le> k"
  then have "take k xs = take j xs @ take (k - j) (drop j xs)"
    by (metis le_add_diff_inverse take_add)
  then show ?thesis by (simp add: prefix_len_def)
qed

lemma prefix_len_total: "prefix_len xs k \<le> length (concat (map payload xs))"
  using prefix_len_mono [of k "max k (length xs)" xs] by (simp add: prefix_len_def)

lemma prefix_len_Suc:
  "i < length xs \<Longrightarrow> prefix_len xs (Suc i) = prefix_len xs i + length (payload (xs ! i))"
  by (simp add: prefix_len_def take_Suc_conv_app_nth)

lemma slice_concat_payload:
  assumes "i < length xs"
  shows "take (length (payload (xs ! i))) (drop (prefix_len xs i) (concat (map payload xs)))
           = payload (xs ! i)"
proof -
  have "xs = take i xs @ xs ! i # drop (Suc i) xs"
    using assms by (simp add: id_take_nth_drop)
  then have "concat (map payload xs)
      = concat (map payload (take i xs)) @ payload (xs ! i) @ concat (map payload (drop (Suc i) xs))"
    by (metis concat.simps(2) concat_append list.simps(9) map_append)
  then show ?thesis by (simp add: prefix_len_def)
qed

lemma view_to_offset_Inr:
  assumes ok: "BinaryToBinaryCastExec_view_to_offset ctx v out = Inr b"
  shows "b = out\<lparr>a_length := a_length v, a_null_count := a_null_count v,
                   a_validity := GetOrCopyNullBitmapBuffer v,
                   value_offsets := 0 # map (\<lambda>k. static_cast_to (offset_type (a_type out))
                                       (int (prefix_len (array_slots GetView_view v) (Suc k))))
                                     [0 ..< a_length v],
                   value_data := Some \<lparr>address = memory_pool ctx,
                                        bytes = concat (map payload (array_slots GetView_view v))\<rparr>\<rparr>"
proof -
  have len: "length (array_slots GetView_view v) = a_length v"
    by (simp add: array_slots_def)
  show ?thesis
    using ok
    by (simp add: BinaryToBinaryCastExec_view_to_offset_def Let_def view_to_offset_builders len
        split: sum.splits if_splits)
qed

lemma IsValid_GetOrCopyNullBitmapBuffer:
  assumes "a_validity b = GetOrCopyNullBitmapBuffer v" and "a_offset b = 0"
    and "i < a_length v"
    and "case a_validity v of None \<Rightarrow> True | Some bm \<Rightarrow> a_offset v + a_length v \<le> length bm"
  shows "IsValid b i = IsValid v i"
  using assms
  by (auto simp: IsValid_def GetOrCopyNullBitmapBuffer_def CopyBitmap_def split: option.splits)

lemma view_to_offset_slots:
  assumes ok: "BinaryToBinaryCastExec_view_to_offset ctx v out = Inr b"
    and off0: "a_offset out = 0"
    and fits: "int (length (concat (map payload (array_slots GetView_view v))))
                 \<le> numeric_limits_max (offset_type (a_type out))"
    and bm: "case a_validity v of None \<Rightarrow> True | Some bm \<Rightarrow> a_offset v + a_length v \<le> length bm"
  shows "array_slots GetView_offset b = array_slots GetView_view v"
proof -
  let ?xs = "array_slots GetView_view v"
  let ?w = "offset_type (a_type out)"
  let ?n = "a_length v"
  note b = view_to_offset_Inr [OF ok]
  have len: "length ?xs = ?n" by (simp add: array_slots_def)
  have hdr: "a_length b = ?n" "a_offset b = 0" "a_validity b = GetOrCopyNullBitmapBuffer v"
    by (subst b, simp add: off0)+
  have data: "buffer_bytes (value_data b) = concat (map payload ?xs)"
    by (subst b) (simp add: buffer_bytes_def)
  have cast: "static_cast_to ?w (int (prefix_len ?xs k)) = int (prefix_len ?xs k)" for k
  proof (rule static_cast_to_id)
    show "int (prefix_len ?xs k) \<le> numeric_limits_max ?w"
      using prefix_len_total [of ?xs k] fits by linarith
    show "- numeric_limits_max ?w - 1 \<le> int (prefix_len ?xs k)"
      by (cases ?w) simp_all
  qed
  have offs: "GetValues_offsets b ! k = int (prefix_len ?xs k)" if "k \<le> ?n" for k
  proof (cases k)
    case 0
    then show ?thesis by (subst b) (simp add: GetValues_offsets_def off0 prefix_len_0)
  next
    case (Suc j)
    then show ?thesis using that by (subst b) (simp add: GetValues_offsets_def off0 cast)
  qed
  have view: "GetView_offset b i = payload (?xs ! i)" if "i < ?n" for i
  proof -
    have "GetView_offset b i
        = take (length (payload (?xs ! i))) (drop (prefix_len ?xs i) (concat (map payload ?xs)))"
      using that by (simp add: GetView_offset_def Let_def offs data slice_def prefix_len_Suc len)
    then show ?thesis using slice_concat_payload [of i ?xs] that len by simp
  qed
  have "array_slots GetView_offset b
      = map (\<lambda>i. if IsValid v i then Some (GetView_view v i) else None) [0 ..< ?n]"
    unfolding array_slots_def hdr
  proof (rule map_cong [OF refl])
    fix i assume "i \<in> set [0 ..< ?n]"
    then have i: "i < ?n" by simp
    have valid: "IsValid b i = IsValid v i"
      by (rule IsValid_GetOrCopyNullBitmapBuffer [OF hdr(3) hdr(2) i bm])
    have "?xs ! i = (if IsValid v i then Some (GetView_view v i) else None)"
      using i by (simp add: array_slots_def)
    then show "(if IsValid b i then Some (GetView_offset b i) else None)
             = (if IsValid v i then Some (GetView_view v i) else None)"
      using view [OF i] valid by (simp add: payload_def)
  qed
  then show ?thesis by (simp add: array_slots_def)
qed

lemma payload_total_le:
  assumes n_len: "a_length a < length (GetValues_offsets a)"
    and srt: "sorted (take (a_length a + 1) (GetValues_offsets a))"
    and m: "m \<le> a_length a"
  shows "int (length (concat (map payload
           (map (\<lambda>i. if IsValid a i then Some (GetView_offset a i) else None) [0 ..< m]))))
         \<le> GetValues_offsets a ! m - GetValues_offsets a ! 0"
  using m
proof (induction m)
  case 0
  then show ?case by simp
next
  case (Suc m)
  let ?io = "GetValues_offsets a"
  have mono: "?io ! m \<le> ?io ! Suc m"
    using sorted_take_nth_mono [OF srt n_len, of m "Suc m"] Suc.prems by simp
  have "int (length (payload (if IsValid a m then Some (GetView_offset a m) else None)))
          \<le> ?io ! Suc m - ?io ! m"
    using mono by (simp add: payload_def GetView_offset_def Let_def slice_def) linarith
  then show ?case using Suc by simp
qed

lemma offset_to_view_succeeds:
  assumes g1: "is_utf8 (a_type out_v) \<longrightarrow> is_utf8 (a_type a) \<or> allow_invalid_utf8 (options ctx)
                 \<or> ArraySpanVisitor_Visit (array_slots GetView_offset a) = Inr ()"
    and cap: "offset_type (a_type a) = W64 \<longrightarrow> GetValues_offsets a ! a_length a \<le> 2147483647"
  shows "\<exists>v. BinaryToBinaryCastExec_offset_to_view ctx a out_v = Inr v"
proof (cases "offset_type (a_type a)")
  case W32
  then show ?thesis using g1
    by (auto simp: BinaryToBinaryCastExec_offset_to_view_def ZeroCopyCastExec_offset_to_view_def
        Let_def)
next
  case W64
  then show ?thesis using g1 cap
    by (auto simp: BinaryToBinaryCastExec_offset_to_view_def ZeroCopyCastExec_offset_to_view_def
        Let_def)
qed

lemma view_to_offset_succeeds:
  assumes "is_utf8 (a_type out_o) \<longrightarrow> is_utf8 (a_type v) \<or> allow_invalid_utf8 (options ctx)
                 \<or> ArraySpanVisitor_Visit (array_slots GetView_view v) = Inr ()"
  shows "\<exists>b. BinaryToBinaryCastExec_view_to_offset ctx v out_o = Inr b"
  using assms by (auto simp: BinaryToBinaryCastExec_view_to_offset_def Let_def)

text \<open>
  C2 (as amended). Take a well-formed offset-layout array of any length (zero included)
  and any start offset, whose final offset is at most \<open>2 ^ 31 - 1\<close> (which always holds
  with 32-bit offsets), and let the UTF-8 guard pass or be off in both directions. Then the
  conversion to view layout succeeds, converting its result back to an offset layout of the
  same offset width succeeds, and the array obtained has the same length and, slot by slot,
  the same null pattern and the same bytes as the source.
\<close>

theorem offset_view_offset_roundtrip:
  assumes wf: "wf_offset_array a"
    and cap: "offset_type (a_type a) = W64 \<longrightarrow> GetValues_offsets a ! a_length a \<le> 2147483647"
    and g1: "is_utf8 (a_type out_v) \<longrightarrow> is_utf8 (a_type a) \<or> allow_invalid_utf8 (options ctx)
               \<or> ArraySpanVisitor_Visit (array_slots GetView_offset a) = Inr ()"
    and g2: "is_utf8 (a_type out_o) \<longrightarrow> is_utf8 (a_type out_v) \<or> allow_invalid_utf8 (options ctx')
               \<or> ArraySpanVisitor_Visit (array_slots GetView_offset a) = Inr ()"
    and width: "offset_type (a_type out_o) = offset_type (a_type a)"
    and off0: "a_offset out_o = 0"
  shows "\<exists>v b. BinaryToBinaryCastExec_offset_to_view ctx a out_v = Inr v
             \<and> BinaryToBinaryCastExec_view_to_offset ctx' v out_o = Inr b
             \<and> a_length b = a_length a
             \<and> array_slots GetView_offset b = array_slots GetView_offset a"
proof -
  obtain v where v: "BinaryToBinaryCastExec_offset_to_view ctx a out_v = Inr v"
    using offset_to_view_succeeds [OF g1 cap] by blast
  have bm: "case a_validity a of None \<Rightarrow> True | Some bm \<Rightarrow> a_offset a + a_length a \<le> length bm"
    using wf by (simp add: wf_offset_array_def)
  note vrec = offset_to_view_Inr(1) [OF v bm]
  have hdr: "a_type v = a_type out_v" "a_length v = a_length a" "a_offset v = a_offset a"
    "a_validity v = a_validity a"
    by (subst vrec, simp)+
  have slots_v: "array_slots GetView_view v = array_slots GetView_offset a"
    by (rule offset_to_view_slots [OF wf v])
  obtain b where b: "BinaryToBinaryCastExec_view_to_offset ctx' v out_o = Inr b"
    using view_to_offset_succeeds [of out_o v ctx'] g2 by (auto simp: hdr slots_v)
  have n_len: "a_length a < length (GetValues_offsets a)"
    and srt: "sorted (take (a_length a + 1) (GetValues_offsets a))"
    and nonneg: "0 \<le> GetValues_offsets a ! 0"
    and lim: "GetValues_offsets a ! a_length a \<le> numeric_limits_max (offset_type (a_type a))"
    using wf by (simp_all add: wf_offset_array_def)
  have "int (length (concat (map payload (array_slots GetView_offset a))))
          \<le> GetValues_offsets a ! a_length a - GetValues_offsets a ! 0"
    unfolding array_slots_def by (rule payload_total_le [OF n_len srt order_refl])
  then have fits: "int (length (concat (map payload (array_slots GetView_view v))))
                     \<le> numeric_limits_max (offset_type (a_type out_o))"
    using nonneg lim by (simp add: slots_v width)
  have bm_v: "case a_validity v of None \<Rightarrow> True | Some bm \<Rightarrow> a_offset v + a_length v \<le> length bm"
    using bm by (simp add: hdr split: option.splits)
  have "array_slots GetView_offset b = array_slots GetView_view v"
    by (rule view_to_offset_slots [OF b off0 fits bm_v])
  moreover have "a_length b = a_length a"
    by (subst view_to_offset_Inr [OF b]) (simp add: hdr)
  ultimately show ?thesis using v b slots_v by simp
qed

theorem offset_view_offset_roundtrip_witness:
  "wf_offset_array sliced_binary
   \<and> array_slots GetView_offset sliced_binary
       = [Some [0x61, 0x62], None,
          Some [0x41, 0x42, 0x43, 0x44, 0x45, 0x46, 0x47, 0x48, 0x49, 0x4A, 0x4B, 0x4C, 0x4D, 0x4E]]
   \<and> (\<exists>v b. BinaryToBinaryCastExec_offset_to_view ctx_strict sliced_binary
                 (view_out BinaryViewType) = Inr v
             \<and> BinaryToBinaryCastExec_view_to_offset ctx_strict v (offset_out BinaryType) = Inr b
             \<and> a_length b = a_length sliced_binary
             \<and> array_slots GetView_offset b = array_slots GetView_offset sliced_binary)"
proof -
  have wf: "wf_offset_array sliced_binary"
    by (simp add: wf_offset_array_def sliced_binary_def GetValues_offsets_def buffer_bytes_def)
  have slots: "array_slots GetView_offset sliced_binary
       = [Some [0x61, 0x62], None,
          Some [0x41, 0x42, 0x43, 0x44, 0x45, 0x46, 0x47, 0x48, 0x49, 0x4A, 0x4B, 0x4C, 0x4D, 0x4E]]"
    by code_simp
  have cap: "offset_type (a_type sliced_binary) = W64 \<longrightarrow>
               GetValues_offsets sliced_binary ! a_length sliced_binary \<le> 2147483647"
    by (simp add: sliced_binary_def)
  have g1: "is_utf8 (a_type (view_out BinaryViewType)) \<longrightarrow> is_utf8 (a_type sliced_binary)
              \<or> allow_invalid_utf8 (options ctx_strict)
              \<or> ArraySpanVisitor_Visit (array_slots GetView_offset sliced_binary) = Inr ()"
    by (simp add: view_out_def)
  have g2: "is_utf8 (a_type (offset_out BinaryType)) \<longrightarrow> is_utf8 (a_type (view_out BinaryViewType))
              \<or> allow_invalid_utf8 (options ctx_strict)
              \<or> ArraySpanVisitor_Visit (array_slots GetView_offset sliced_binary) = Inr ()"
    by (simp add: offset_out_def)
  have width: "offset_type (a_type (offset_out BinaryType)) = offset_type (a_type sliced_binary)"
    by (simp add: offset_out_def sliced_binary_def)
  have off0: "a_offset (offset_out BinaryType) = 0"
    by (simp add: offset_out_def)
  show ?thesis
    using wf slots offset_view_offset_roundtrip [OF wf cap g1 g2 width off0] by simp
qed

text \<open>A well-formed large-binary array with one slot of \<open>2 ^ 31\<close> bytes is not converted
  to view layout at all.\<close>

theorem offset_view_offset_roundtrip_counterexample:
  "wf_offset_array large_binary_2gib
   \<and> BinaryToBinaryCastExec_offset_to_view ctx_strict large_binary_2gib (view_out BinaryViewType)
       = Inl (Status CapacityError
               [Str ''Failed casting from '', TypeName LargeBinaryType, Str '' to '',
                TypeName BinaryViewType,
                Str '': input array too large for efficient conversion.''])"
  by (simp add: wf_offset_array_def BinaryToBinaryCastExec_offset_to_view_def
      ZeroCopyCastExec_offset_to_view_def large_binary_2gib_def view_out_def ctx_strict_def
      GetValues_offsets_def buffer_bytes_def too_large_for_view_msg_def Let_def)

section \<open>Offset layout with 32-bit offsets to view layout\<close>

text \<open>
  C10. An offset-to-view conversion whose source has 32-bit offsets never fails with a
  capacity error: it succeeds or fails the UTF-8 guard. The overflow check is made only for
  wider offsets; every offset of a well-formed 32-bit source lies between \<open>0\<close> and
  \<open>2 ^ 31 - 1\<close>, so the cast to the 32-bit offset field of a view reference leaves it
  unchanged.
\<close>

theorem offset32_to_view_never_capacity_error:
  assumes "offset_type (a_type input) = W32"
  shows "BinaryToBinaryCastExec_offset_to_view ctx input out \<noteq> Inl (Status CapacityError msg)
       \<and> ((\<exists>v. BinaryToBinaryCastExec_offset_to_view ctx input out = Inr v)
          \<or> BinaryToBinaryCastExec_offset_to_view ctx input out
               = Inl (Status Invalid [Str ''Invalid UTF8 payload'']))
       \<and> (wf_offset_array input \<longrightarrow>
            (\<forall>i \<le> a_length input.
               0 \<le> GetValues_offsets input ! i \<and> GetValues_offsets input ! i \<le> 2147483647
               \<and> static_cast_to W32 (GetValues_offsets input ! i) = GetValues_offsets input ! i))"
proof -
  have res: "(\<exists>v. BinaryToBinaryCastExec_offset_to_view ctx input out = Inr v)
          \<or> BinaryToBinaryCastExec_offset_to_view ctx input out
               = Inl (Status Invalid [Str ''Invalid UTF8 payload''])"
    using assms
    by (auto simp: BinaryToBinaryCastExec_offset_to_view_def ZeroCopyCastExec_offset_to_view_def
        Let_def ArraySpanVisitor_Visit_eq)
  have fits: "0 \<le> GetValues_offsets input ! i \<and> GetValues_offsets input ! i \<le> 2147483647
               \<and> static_cast_to W32 (GetValues_offsets input ! i) = GetValues_offsets input ! i"
    if wf: "wf_offset_array input" and i: "i \<le> a_length input" for i
  proof -
    have n_len: "a_length input < length (GetValues_offsets input)"
      and srt: "sorted (take (a_length input + 1) (GetValues_offsets input))"
      and nonneg: "0 \<le> GetValues_offsets input ! 0"
      and lim: "GetValues_offsets input ! a_length input \<le> 2147483647"
      using wf assms by (simp_all add: wf_offset_array_def)
    have "GetValues_offsets input ! 0 \<le> GetValues_offsets input ! i"
      using sorted_take_nth_mono [OF srt n_len, of 0 i] i by simp
    moreover have "GetValues_offsets input ! i \<le> GetValues_offsets input ! a_length input"
      using sorted_take_nth_mono [OF srt n_len, of i "a_length input"] i by simp
    ultimately show ?thesis using nonneg lim by simp
  qed
  from res have "BinaryToBinaryCastExec_offset_to_view ctx input out \<noteq> Inl (Status CapacityError msg)"
    by auto
  with res fits show ?thesis by blast
qed

theorem offset32_to_view_never_capacity_error_witness:
  "offset_type (a_type sliced_binary) = W32
   \<and> wf_offset_array sliced_binary
   \<and> BinaryToBinaryCastExec_offset_to_view ctx_strict sliced_binary (view_out StringViewType)
       \<noteq> Inl (Status CapacityError (too_large_for_view_msg BinaryType StringViewType))
   \<and> GetValues_offsets sliced_binary ! 3 = 19
   \<and> static_cast_to W32 (GetValues_offsets sliced_binary ! 3) = 19"
proof -
  have w: "offset_type (a_type sliced_binary) = W32"
    by (simp add: sliced_binary_def)
  have wf: "wf_offset_array sliced_binary"
    by (simp add: wf_offset_array_def sliced_binary_def GetValues_offsets_def buffer_bytes_def)
  have n: "a_length sliced_binary = 3"
    by (simp add: sliced_binary_def)
  have v: "GetValues_offsets sliced_binary ! 3 = 19"
    by (simp add: sliced_binary_def GetValues_offsets_def)
  from offset32_to_view_never_capacity_error [OF w, of ctx_strict "view_out StringViewType"
      "too_large_for_view_msg BinaryType StringViewType"]
  show ?thesis using w wf n v by simp
qed

section \<open>Fixed-size binary to view layout\<close>

lemma static_cast_W32_add_left:
  "static_cast_to W32 (static_cast_to W32 x + y) = static_cast_to W32 (x + y)"
proof -
  have a: "(x + 2147483648) mod 4294967296 - 2147483648 + y + 2147483648
          = (x + 2147483648) mod 4294967296 + y"
    by simp
  have b: "((x + 2147483648) mod 4294967296 + y) mod 4294967296
          = (x + 2147483648 + y) mod 4294967296"
    by (rule mod_add_left_eq)
  have c: "x + 2147483648 + y = x + y + 2147483648"
    by simp
  show ?thesis
    unfolding static_cast_to.simps a b c ..
qed

lemma static_cast_W32_idem: "static_cast_to W32 (static_cast_to W32 x) = static_cast_to W32 x"
  using static_cast_W32_add_left [of x 0] by simp

lemma fold_fixed_to_view_inline:
  assumes "w \<le> kInlineSize"
  shows "fold (fixed_to_view_inline_slot w data off) [0 ..< m] (vs, static_cast_to W32 x)
     = (fold (\<lambda>i vs. vs[off + i := fixed_view w data (static_cast_to W32 (x + int i * w))])
          [0 ..< m] vs,
        static_cast_to W32 (x + int m * w))"
proof (induction m)
  case 0
  then show ?case by simp
next
  case (Suc m)
  have "static_cast_to W32 (static_cast_to W32 (x + int m * w) + w)
      = static_cast_to W32 (x + int (Suc m) * w)"
    unfolding static_cast_W32_add_left by (simp add: algebra_simps)
  then show ?case
    using Suc assms by (simp add: fixed_to_view_inline_slot_def fixed_view_def)
qed

lemma fold_fixed_to_view_ref:
  assumes "\<not> w \<le> kInlineSize"
  shows "fold (fixed_to_view_ref_slot w data off) [0 ..< m] (vs, static_cast_to W32 x)
     = (fold (\<lambda>i vs. vs[off + i := fixed_view w data (static_cast_to W32 (x + int i * w))])
          [0 ..< m] vs,
        static_cast_to W32 (x + int m * w))"
proof (induction m)
  case 0
  then show ?case by simp
next
  case (Suc m)
  have "static_cast_to W32 (static_cast_to W32 (x + int m * w) + w)
      = static_cast_to W32 (x + int (Suc m) * w)"
    unfolding static_cast_W32_add_left by (simp add: algebra_simps)
  then show ?case
    using Suc assms
    by (simp add: fixed_to_view_ref_slot_def fixed_view_def static_cast_W32_idem)
qed

lemma resize_then_set: "(resize (Suc 0) xs)[0 := b] = [b]"
  by (cases xs) (simp_all add: resize_def)

lemma fixed_to_view_Inr:
  assumes ok: "BinaryToBinaryCastExec_fixed_to_view ctx input out = Inr v"
  shows "v = out\<lparr>a_offset := a_offset input, a_null_count := a_null_count input,
                   a_validity := a_validity input,
                   views := fold (\<lambda>i vs. vs[a_offset input + i :=
                               fixed_view (byte_width (a_type input))
                                 (buffer_bytes (fixed_data input))
                                 (static_cast_to W32
                                    (static_cast_to W32 (int (a_offset input))
                                       * byte_width (a_type input)
                                     + int i * byte_width (a_type input)))])
                             [0 ..< a_length input]
                             (replicate (a_offset input + a_length input) empty_view),
                   variadic := (if byte_width (a_type input) \<le> kInlineSize
                                then resize 1 (variadic out)
                                else [fixed_data input])\<rparr>"
    and "0 < a_offset input + a_length input \<Longrightarrow>
           (int (a_offset input + a_length input) - 1) * byte_width (a_type input) \<le> 2147483647"
proof -
  show "v = out\<lparr>a_offset := a_offset input, a_null_count := a_null_count input,
                   a_validity := a_validity input,
                   views := fold (\<lambda>i vs. vs[a_offset input + i :=
                               fixed_view (byte_width (a_type input))
                                 (buffer_bytes (fixed_data input))
                                 (static_cast_to W32
                                    (static_cast_to W32 (int (a_offset input))
                                       * byte_width (a_type input)
                                     + int i * byte_width (a_type input)))])
                             [0 ..< a_length input]
                             (replicate (a_offset input + a_length input) empty_view),
                   variadic := (if byte_width (a_type input) \<le> kInlineSize
                                then resize 1 (variadic out)
                                else [fixed_data input])\<rparr>"
    using ok
    by (auto simp add: BinaryToBinaryCastExec_fixed_to_view_def Let_def fold_fixed_to_view_inline
        fold_fixed_to_view_ref resize_then_set simp del: static_cast_to.simps
        split: sum.splits if_splits)
  show "(int (a_offset input + a_length input) - 1) * byte_width (a_type input) \<le> 2147483647"
    if "0 < a_offset input + a_length input"
    using ok that
    by (auto simp: BinaryToBinaryCastExec_fixed_to_view_def Let_def split: sum.splits if_splits)
qed

section \<open>Positions beyond the range of a view reference\<close>



section \<open>Inline views, reference views and the external data buffer\<close>

lemma fixed_position_exact:
  assumes w: "0 \<le> w" and i: "i < n"
    and cap: "(int (off + n) - 1) * w \<le> 2147483647"
  shows "static_cast_to W32 (static_cast_to W32 (int off) * w + int i * w)
           = (int off + int i) * w"
proof (cases "w = 0")
  case True
  then show ?thesis by simp
next
  case False
  with w have w1: "1 \<le> w" by simp
  have le: "int off + int i \<le> int (off + n) - 1" using i by simp
  have "(int off + int i) * w \<le> (int (off + n) - 1) * w"
    using le w by (rule mult_right_mono)
  then have top: "(int off + int i) * w \<le> 2147483647" using cap by linarith
  have "int off + int i \<le> (int off + int i) * w"
    using w1 by (simp add: mult_le_cancel_left1)
  then have "int off \<le> 2147483647" using top by linarith
  then have c: "static_cast_to W32 (int off) = int off" by simp
  have "0 \<le> (int off + int i) * w" using w by simp
  then have "static_cast_to W32 ((int off + int i) * w) = (int off + int i) * w"
    using top by simp
  then show ?thesis unfolding c by (simp add: algebra_simps)
qed

lemma fixed_to_view_nth:
  assumes ok: "BinaryToBinaryCastExec_fixed_to_view ctx input out = Inr v"
    and w: "0 \<le> byte_width (a_type input)" and i: "i < a_length input"
  shows "views v ! (a_offset input + i)
           = fixed_view (byte_width (a_type input)) (buffer_bytes (fixed_data input))
               ((int (a_offset input) + int i) * byte_width (a_type input))"
proof -
  have cap: "(int (a_offset input + a_length input) - 1) * byte_width (a_type input) \<le> 2147483647"
    using fixed_to_view_Inr(2) [OF ok] i by simp
  have "views v ! (a_offset input + i)
      = fixed_view (byte_width (a_type input)) (buffer_bytes (fixed_data input))
          (static_cast_to W32 (static_cast_to W32 (int (a_offset input)) * byte_width (a_type input)
             + int i * byte_width (a_type input)))"
    by (subst fixed_to_view_Inr(1) [OF ok]) (simp add: nth_fold_update i del: static_cast_to.simps)
  then show ?thesis
    unfolding fixed_position_exact [OF w i cap] .
qed


text \<open>
  C6 (as amended). In a successful fixed-to-view conversion the element width alone decides
  the form of the views. A width of at most 12 bytes (the inline threshold) makes every
  view an inline view holding the element's bytes, and the output has no external data
  buffer. A width above the threshold makes every view a reference view (size, 4-byte
  prefix, buffer index 0, position of the element in the source data buffer), and the
  source data buffer itself is the output's external buffer, whatever the number of
  elements. In a successful offset-to-view conversion the external data buffer is dropped
  exactly when every view written for a valid slot is inline, as found by the loop that
  writes the views; otherwise it is the source data buffer.
\<close>

theorem fixed_to_view_inline_or_reference:
  "(BinaryToBinaryCastExec_fixed_to_view ctx input out = Inr v
      \<and> 0 \<le> byte_width (a_type input) \<and> byte_width (a_type input) \<le> kInlineSize
      \<and> variadic out = []
    \<longrightarrow> variadic v = [None]
        \<and> (\<forall>i < a_length input.
              views v ! (a_offset input + i)
                = Inlined (byte_width (a_type input)) (inline_data (GetView_fixed input i))))
   \<and> (BinaryToBinaryCastExec_fixed_to_view ctx input out = Inr v
      \<and> kInlineSize < byte_width (a_type input)
    \<longrightarrow> variadic v = [fixed_data input]
        \<and> (\<forall>i < a_length input.
              views v ! (a_offset input + i)
                = Ref (byte_width (a_type input))
                    (slice (buffer_bytes (fixed_data input))
                       ((int (a_offset input) + int i) * byte_width (a_type input))
                       (int kPrefixSize))
                    0 ((int (a_offset input) + int i) * byte_width (a_type input))))
   \<and> (BinaryToBinaryCastExec_offset_to_view ctx' a out' = Inr v'
      \<and> (case a_validity a of None \<Rightarrow> True | Some bm \<Rightarrow> a_offset a + a_length a \<le> length bm)
    \<longrightarrow> ((\<forall>i \<in> set (valid_indices a). is_inline (views v' ! (a_offset a + i)))
           \<longrightarrow> variadic v' = [None])
        \<and> (\<not> (\<forall>i \<in> set (valid_indices a). is_inline (views v' ! (a_offset a + i)))
           \<longrightarrow> variadic v' = [value_data a]))"
proof (intro conjI impI allI)
  assume h: "BinaryToBinaryCastExec_fixed_to_view ctx input out = Inr v
      \<and> 0 \<le> byte_width (a_type input) \<and> byte_width (a_type input) \<le> kInlineSize
      \<and> variadic out = []"
  then have ok: "BinaryToBinaryCastExec_fixed_to_view ctx input out = Inr v" by simp
  show "variadic v = [None]"
    using h by (subst fixed_to_view_Inr(1) [OF ok]) (simp add: resize_def)
  fix i assume i: "i < a_length input"
  show "views v ! (a_offset input + i)
          = Inlined (byte_width (a_type input)) (inline_data (GetView_fixed input i))"
    using fixed_to_view_nth [OF ok _ i] h by (simp add: fixed_view_def GetView_fixed_def)
next
  assume h: "BinaryToBinaryCastExec_fixed_to_view ctx input out = Inr v
      \<and> kInlineSize < byte_width (a_type input)"
  then have ok: "BinaryToBinaryCastExec_fixed_to_view ctx input out = Inr v" by simp
  have w: "0 \<le> byte_width (a_type input)" using h by (simp add: kInlineSize_def)
  show "variadic v = [fixed_data input]"
    using h by (subst fixed_to_view_Inr(1) [OF ok]) simp
  fix i assume i: "i < a_length input"
  have cap: "(int (a_offset input + a_length input) - 1) * byte_width (a_type input) \<le> 2147483647"
    using fixed_to_view_Inr(2) [OF ok] i by simp
  have le: "int (a_offset input) + int i \<le> int (a_offset input + a_length input) - 1"
    using i by simp
  have "(int (a_offset input) + int i) * byte_width (a_type input)
          \<le> (int (a_offset input + a_length input) - 1) * byte_width (a_type input)"
    using le w by (rule mult_right_mono)
  then have top: "(int (a_offset input) + int i) * byte_width (a_type input) \<le> 2147483647"
    using cap by linarith
  have "0 \<le> (int (a_offset input) + int i) * byte_width (a_type input)" using w by simp
  then have c: "static_cast_to W32 ((int (a_offset input) + int i) * byte_width (a_type input))
           = (int (a_offset input) + int i) * byte_width (a_type input)"
    using top by simp
  show "views v ! (a_offset input + i)
          = Ref (byte_width (a_type input))
              (slice (buffer_bytes (fixed_data input))
                 ((int (a_offset input) + int i) * byte_width (a_type input))
                 (int kPrefixSize))
              0 ((int (a_offset input) + int i) * byte_width (a_type input))"
    using fixed_to_view_nth [OF ok w i] h c by (simp add: fixed_view_def del: static_cast_to.simps)
next
  assume h: "BinaryToBinaryCastExec_offset_to_view ctx' a out' = Inr v'
      \<and> (case a_validity a of None \<Rightarrow> True | Some bm \<Rightarrow> a_offset a + a_length a \<le> length bm)"
  then have ok: "BinaryToBinaryCastExec_offset_to_view ctx' a out' = Inr v'"
    and bm: "case a_validity a of None \<Rightarrow> True | Some bm \<Rightarrow> a_offset a + a_length a \<le> length bm"
    by simp_all
  note v = offset_to_view_Inr(1) [OF ok bm]
  let ?w = "offset_type (a_type a)"
  let ?io = "GetValues_offsets a"
  have views: "views v' ! (a_offset a + i) = slot_view ?w ?io (buffer_bytes (value_data a)) i"
    if "i \<in> set (valid_indices a)" for i
  proof -
    have "i < a_length a" using that by (simp add: valid_indices_def)
    then show ?thesis by (subst v) (simp add: nth_fold_update that)
  qed
  have inl: "is_inline (views v' ! (a_offset a + i)) \<longleftrightarrow> slot_length ?w ?io i \<le> kInlineSize"
    if "i \<in> set (valid_indices a)" for i
    by (simp add: views [OF that] slot_view_def)
  have var: "variadic v' = [if \<forall>i \<in> set (valid_indices a). slot_length ?w ?io i \<le> kInlineSize
                           then None else value_data a]"
    by (subst v) simp
  have eq: "(\<forall>i \<in> set (valid_indices a). is_inline (views v' ! (a_offset a + i)))
        \<longleftrightarrow> (\<forall>i \<in> set (valid_indices a). slot_length ?w ?io i \<le> kInlineSize)"
    using inl by blast
  { assume "\<forall>i \<in> set (valid_indices a). is_inline (views v' ! (a_offset a + i))"
    then show "variadic v' = [None]" using var eq by auto }
  { assume "\<not> (\<forall>i \<in> set (valid_indices a). is_inline (views v' ! (a_offset a + i)))"
    then show "variadic v' = [value_data a]" using var eq by auto }
qed

theorem fixed_to_view_inline_or_reference_witness:
  "BinaryToBinaryCastExec_fixed_to_view ctx_strict fixed12
       ((view_out BinaryViewType)\<lparr>a_length := 2\<rparr>) = Inr fixed12_as_view
   \<and> variadic fixed12_as_view = [None]
   \<and> views fixed12_as_view ! (a_offset fixed12 + 1)
       = Inlined 12 (inline_data (GetView_fixed fixed12 1))
   \<and> BinaryToBinaryCastExec_fixed_to_view ctx_strict fixed13
       ((view_out BinaryViewType)\<lparr>a_length := 2\<rparr>) = Inr fixed13_as_view
   \<and> variadic fixed13_as_view = [fixed_data fixed13]
   \<and> views fixed13_as_view ! (a_offset fixed13 + 1)
       = Ref 13 (slice (buffer_bytes (fixed_data fixed13)) 13 4) 0 13
   \<and> BinaryToBinaryCastExec_offset_to_view ctx_strict sliced_binary (view_out BinaryViewType)
       = Inr sliced_binary_as_view
   \<and> variadic sliced_binary_as_view = [value_data sliced_binary]"
proof -
  have r12: "BinaryToBinaryCastExec_fixed_to_view ctx_strict fixed12
       ((view_out BinaryViewType)\<lparr>a_length := 2\<rparr>) = Inr fixed12_as_view"
    by code_simp
  have r13: "BinaryToBinaryCastExec_fixed_to_view ctx_strict fixed13
       ((view_out BinaryViewType)\<lparr>a_length := 2\<rparr>) = Inr fixed13_as_view"
    by code_simp
  have rs: "BinaryToBinaryCastExec_offset_to_view ctx_strict sliced_binary (view_out BinaryViewType)
       = Inr sliced_binary_as_view"
    by code_simp
  have ni: "\<not> (\<forall>i \<in> set (valid_indices sliced_binary).
                is_inline (views sliced_binary_as_view ! (a_offset sliced_binary + i)))"
    by code_simp
  note t12 = fixed_to_view_inline_or_reference
    [of ctx_strict fixed12 "(view_out BinaryViewType)\<lparr>a_length := 2\<rparr>" fixed12_as_view
        ctx_strict sliced_binary "view_out BinaryViewType" sliced_binary_as_view]
  note t13 = fixed_to_view_inline_or_reference
    [of ctx_strict fixed13 "(view_out BinaryViewType)\<lparr>a_length := 2\<rparr>" fixed13_as_view
        ctx_strict sliced_binary "view_out BinaryViewType" sliced_binary_as_view]
  have a: "variadic fixed12_as_view = [None]
      \<and> views fixed12_as_view ! (a_offset fixed12 + 1)
           = Inlined 12 (inline_data (GetView_fixed fixed12 1))"
    using t12 r12 by (simp add: fixed12_def kInlineSize_def view_out_def)
  have b: "variadic fixed13_as_view = [fixed_data fixed13]
      \<and> views fixed13_as_view ! (a_offset fixed13 + 1)
       = Ref 13 (slice (buffer_bytes (fixed_data fixed13)) 13 4) 0 13"
    using t13 r13 by (simp add: fixed13_def kInlineSize_def kPrefixSize_def)
  have c: "variadic sliced_binary_as_view = [value_data sliced_binary]"
    using t13 rs ni by (simp add: sliced_binary_def)
  show ?thesis using r12 r13 rs a b c by simp
qed


text \<open>An empty array of 13-byte elements: no view is produced, so no view is a
  reference, and the output still carries the source's data buffer.\<close>

theorem empty_fixed_to_view_keeps_buffer_counterexample:
  "BinaryToBinaryCastExec_fixed_to_view ctx_strict empty_fixed13 (view_out BinaryViewType)
     = Inr \<lparr>a_type = BinaryViewType, a_length = 0, a_offset = 0, a_null_count = 0,
            a_validity = None, views = [],
            variadic = [Some \<lparr>address = 5, bytes = []\<rparr>]\<rparr>"
  by code_simp

section \<open>Fixed-size binary to offset layout\<close>

lemma static_cast_W64_add_left:
  "static_cast_to W64 (static_cast_to W64 x + y) = static_cast_to W64 (x + y)"
proof -
  have a: "(x + 9223372036854775808) mod 18446744073709551616 - 9223372036854775808 + y
             + 9223372036854775808
          = (x + 9223372036854775808) mod 18446744073709551616 + y"
    by simp
  have b: "((x + 9223372036854775808) mod 18446744073709551616 + y) mod 18446744073709551616
          = (x + 9223372036854775808 + y) mod 18446744073709551616"
    by (rule mod_add_left_eq)
  have c: "x + 9223372036854775808 + y = x + y + 9223372036854775808"
    by simp
  show ?thesis
    unfolding static_cast_to.simps a b c ..
qed

lemma static_cast_to_add_left:
  "static_cast_to w (static_cast_to w x + y) = static_cast_to w (x + y)"
  by (cases w) (simp_all only: static_cast_W32_add_left static_cast_W64_add_left)

lemma fold_fixed_to_offset_slot:
  assumes "offs ! oo = static_cast_to w base" and "oo + m < length offs"
  shows "length (fold (fixed_to_offset_slot w width oo) [0 ..< m] offs) = length offs
       \<and> (\<forall>k \<le> m. fold (fixed_to_offset_slot w width oo) [0 ..< m] offs ! (oo + k)
                      = static_cast_to w (base + int k * width))
       \<and> (\<forall>j. j < oo \<or> oo + m < j \<longrightarrow>
              fold (fixed_to_offset_slot w width oo) [0 ..< m] offs ! j = offs ! j)"
  using assms(2)
proof (induction m)
  case 0
  then show ?case using assms(1) by simp
next
  case (Suc m)
  let ?r = "fold (fixed_to_offset_slot w width oo) [0 ..< m] offs"
  have IH: "length ?r = length offs"
    "\<And>k. k \<le> m \<Longrightarrow> ?r ! (oo + k) = static_cast_to w (base + int k * width)"
    "\<And>j. j < oo \<or> oo + m < j \<Longrightarrow> ?r ! j = offs ! j"
    using Suc by auto
  have step: "fold (fixed_to_offset_slot w width oo) [0 ..< Suc m] offs
      = ?r[oo + (m + 1) := static_cast_to w (?r ! (oo + m) + width)]"
    by (simp add: fixed_to_offset_slot_def)
  have new: "static_cast_to w (?r ! (oo + m) + width) = static_cast_to w (base + int (Suc m) * width)"
    unfolding IH(2) [OF order_refl] static_cast_to_add_left by (simp add: algebra_simps)
  show ?case
  proof (intro conjI allI impI)
    show "length (fold (fixed_to_offset_slot w width oo) [0 ..< Suc m] offs) = length offs"
      unfolding step using IH(1) by simp
  next
    fix k assume k: "k \<le> Suc m"
    show "fold (fixed_to_offset_slot w width oo) [0 ..< Suc m] offs ! (oo + k)
            = static_cast_to w (base + int k * width)"
    proof (cases "k = Suc m")
      case True
      then show ?thesis unfolding step new using IH(1) Suc.prems by simp
    next
      case False
      then have "k \<le> m" using k by simp
      then show ?thesis unfolding step using IH(2) by simp
    qed
  next
    fix j assume "j < oo \<or> oo + Suc m < j"
    then show "fold (fixed_to_offset_slot w width oo) [0 ..< Suc m] offs ! j = offs ! j"
      unfolding step using IH(3) by auto
  qed
qed

lemma fixed_to_offset_Inr:
  assumes ok: "BinaryToBinaryCastExec_fixed_to_offset ctx input out = Inr b"
  shows "b = out\<lparr>a_length := a_length input, a_null_count := a_null_count input,
                   a_validity :=
                     (if a_offset input = a_offset out then a_validity input
                      else (case a_validity input of
                              None \<Rightarrow> a_validity out
                            | Some bm \<Rightarrow> Some (CopyBitmap bm (a_offset input) (a_length input)))),
                   value_offsets :=
                     fold (fixed_to_offset_slot (offset_type (a_type out))
                             (byte_width (a_type input)) (a_offset out))
                       [0 ..< a_length input]
                       ((value_offsets out)[a_offset out :=
                          static_cast_to (offset_type (a_type out))
                            (int (a_offset input) * byte_width (a_type input))]),
                   value_data :=
                     (case fixed_data input of
                        Some input_data \<Rightarrow>
                          Some (CopySlice input_data 0 (length (bytes input_data))
                                  (memory_pool ctx))
                      | None \<Rightarrow> None)\<rparr>"
    and "byte_width (a_type input) * int (a_length input)
           \<le> numeric_limits_max (offset_type (a_type out))"
  using ok
  by (auto simp add: BinaryToBinaryCastExec_fixed_to_offset_def Let_def
      simp del: static_cast_to.simps split: sum.splits if_splits)

lemma fixed_to_offset_nth:
  assumes ok: "BinaryToBinaryCastExec_fixed_to_offset ctx input out = Inr b"
    and pre: "a_offset out + a_length input < length (value_offsets out)"
    and k: "k \<le> a_length input"
  shows "GetValues_offsets b ! k
           = static_cast_to (offset_type (a_type out))
               ((int (a_offset input) + int k) * byte_width (a_type input))"
proof -
  let ?w = "offset_type (a_type out)"
  let ?W = "byte_width (a_type input)"
  let ?offs0 = "(value_offsets out)[a_offset out := static_cast_to ?w (int (a_offset input) * ?W)]"
  have 0: "?offs0 ! a_offset out = static_cast_to ?w (int (a_offset input) * ?W)"
    using pre by simp
  have len: "a_offset out + a_length input < length ?offs0" using pre by simp
  note f = fold_fixed_to_offset_slot [OF 0 len, of ?W]
  have off: "a_offset b = a_offset out"
    by (subst fixed_to_offset_Inr(1) [OF ok]) simp
  have "value_offsets b = fold (fixed_to_offset_slot ?w ?W (a_offset out)) [0 ..< a_length input] ?offs0"
    by (subst fixed_to_offset_Inr(1) [OF ok]) simp
  then have "GetValues_offsets b ! k
      = fold (fixed_to_offset_slot ?w ?W (a_offset out)) [0 ..< a_length input] ?offs0
          ! (a_offset out + k)"
    using f pre k by (simp add: GetValues_offsets_def off)
  also have "\<dots> = static_cast_to ?w (int (a_offset input) * ?W + int k * ?W)"
    using f k by blast
  finally show ?thesis by (simp add: algebra_simps)
qed

lemma fixed_to_offset_data:
  assumes ok: "BinaryToBinaryCastExec_fixed_to_offset ctx input out = Inr b"
  shows "value_data b
           = (case fixed_data input of
                None \<Rightarrow> None
              | Some d \<Rightarrow> Some \<lparr>address = memory_pool ctx, bytes = bytes d\<rparr>)"
  by (subst fixed_to_offset_Inr(1) [OF ok]) (simp add: CopySlice_def split: option.splits)

lemma fixed_to_offset_progression:
  assumes ok: "BinaryToBinaryCastExec_fixed_to_offset ctx input out = Inr b"
    and pre: "a_offset out + a_length input < length (value_offsets out)"
    and k: "k \<le> a_length input"
    and w: "0 \<le> byte_width (a_type input)"
    and fits: "(int (a_offset input) + int (a_length input)) * byte_width (a_type input)
                 \<le> numeric_limits_max (offset_type (a_type out))"
  shows "GetValues_offsets b ! k = (int (a_offset input) + int k) * byte_width (a_type input)"
proof -
  have "(int (a_offset input) + int k) * byte_width (a_type input)
          \<le> (int (a_offset input) + int (a_length input)) * byte_width (a_type input)"
    using k w by (intro mult_right_mono) simp_all
  then have top: "(int (a_offset input) + int k) * byte_width (a_type input)
                    \<le> numeric_limits_max (offset_type (a_type out))"
    using fits by linarith
  have "0 \<le> (int (a_offset input) + int k) * byte_width (a_type input)" using w by simp
  then have "- numeric_limits_max (offset_type (a_type out)) - 1
               \<le> (int (a_offset input) + int k) * byte_width (a_type input)"
    by (cases "offset_type (a_type out)") simp_all
  then show ?thesis
    unfolding fixed_to_offset_nth [OF ok pre k] using top by (rule static_cast_to_id)
qed


text \<open>
  C5, at a sliced input. The size check of the fixed-to-offset conversion compares
  \<open>width * length\<close> with the maximum of the offset type and leaves the array's start
  offset out, while the first offset written is \<open>offset * width\<close>. For one 16-byte
  element sliced out at element \<open>2 ^ 27\<close> and 32-bit offsets the check passes
  (\<open>16 \<le> 2 ^ 31 - 1\<close>) and the two offsets written are the wrapped values
  \<open>- 2 ^ 31\<close> and \<open>- 2 ^ 31 + 16\<close>, not the positions \<open>2 ^ 31\<close> and \<open>2 ^ 31 + 16\<close>
  of the element in the copied data buffer. The data buffer of the output is a copy with a
  handle of its own (100, the pool's next address; the source's handle is 0). Where
  \<open>(offset + length) * width\<close> does not exceed the maximum, the offsets are the exact
  progression (\<open>fixed_to_offset_progression\<close>).
\<close>

theorem fixed_to_offset_sliced_input_wraps:
  "BinaryToBinaryCastExec_fixed_to_offset ctx_strict fixed16_sliced
       ((offset_out BinaryType)\<lparr>value_offsets := [0, 0]\<rparr>)
     = Inr \<lparr>a_type = BinaryType, a_length = 1, a_offset = 0, a_null_count = 0,
            a_validity = None, value_offsets = [- 2147483648, - 2147483632],
            value_data = Some \<lparr>address = 100, bytes = replicate 2147483664 0\<rparr>\<rparr>"
  by (simp add: BinaryToBinaryCastExec_fixed_to_offset_def Let_def ctx_strict_def
      fixed16_sliced_def offset_out_def fixed_to_offset_slot_def CopySlice_def)

section \<open>Offset or view layout to fixed-size binary\<close>

lemma VisitArraySpanInline_to_fixed:
  "VisitArraySpanInline (to_fixed_value ty opts) to_fixed_null slots builder =
     (if width_mismatch (static_cast_size_t (byte_width (b_type builder))) slots
      then Inl (Status Invalid (widths_must_match_msg ty (to_type opts)))
      else Inr (builder\<lparr>b_slots := b_slots builder @ slots\<rparr>))"
proof (induction slots arbitrary: builder)
  case Nil
  then show ?case by (simp add: width_mismatch_def)
next
  case (Cons x xs)
  show ?case
  proof (cases x)
    case None
    then show ?thesis
      using Cons [of "UnsafeAppendNull builder"]
      by (simp add: to_fixed_null_def UnsafeAppendNull_def width_mismatch_def)
  next
    case (Some v)
    then show ?thesis
      using Cons [of "UnsafeAppend builder v"]
      by (simp add: to_fixed_value_def UnsafeAppend_def width_mismatch_def)
  qed
qed

lemma concat_chunk:
  assumes "\<forall>c \<in> set cs. length c = w" and "i < length cs"
  shows "take w (drop (i * w) (concat cs)) = cs ! i"
  using assms
proof (induction cs arbitrary: i)
  case Nil
  then show ?case by simp
next
  case (Cons c cs)
  show ?case
  proof (cases i)
    case 0
    then show ?thesis using Cons.prems by simp
  next
    case (Suc j)
    then have "take w (drop (j * w) (concat cs)) = cs ! j"
      using Cons by simp
    then show ?thesis using Suc Cons.prems by (simp add: add.commute)
  qed
qed

lemma FinishInternal_slots:
  assumes w: "0 \<le> byte_width (b_type builder)"
    and ok: "\<not> width_mismatch (byte_width (b_type builder)) (b_slots builder)"
    and fin: "FinishInternal builder pool = Inr out"
  shows "array_slots GetView_fixed out = b_slots builder"
proof -
  let ?W = "byte_width (b_type builder)"
  let ?cs = "map (fixed_slot_bytes ?W) (b_slots builder)"
  have out: "out = \<lparr>a_type = b_type builder, a_length = length (b_slots builder), a_offset = 0,
          a_null_count = int (length (filter (\<lambda>x. x = None) (b_slots builder))),
          a_validity = Some (map (\<lambda>x. x \<noteq> None) (b_slots builder)),
          fixed_data = Some \<lparr>address = pool, bytes = concat ?cs\<rparr>\<rparr>"
    using fin by (simp add: FinishInternal_def)
  have chunks: "\<forall>c \<in> set ?cs. length c = nat ?W"
  proof
    fix c assume "c \<in> set ?cs"
    then obtain x where x: "x \<in> set (b_slots builder)" "c = fixed_slot_bytes ?W x" by auto
    show "length c = nat ?W"
    proof (cases x)
      case None
      then show ?thesis using x by (simp add: fixed_slot_bytes_def)
    next
      case (Some v)
      then have "int (length v) = ?W"
        using ok x(1) by (auto simp: width_mismatch_def list_ex_iff)
      then show ?thesis using x Some by (simp add: fixed_slot_bytes_def)
    qed
  qed
  have slot: "(if IsValid out i then Some (GetView_fixed out i) else None) = b_slots builder ! i"
    if i: "i < length (b_slots builder)" for i
  proof (cases "b_slots builder ! i")
    case None
    then show ?thesis using i by (simp add: out IsValid_def)
  next
    case (Some v)
    have "take (nat ?W) (drop (i * nat ?W) (concat ?cs)) = ?cs ! i"
      using concat_chunk [OF chunks, of i] i by simp
    moreover have "nat (int i * ?W) = i * nat ?W"
      using w by (simp add: nat_mult_distrib)
    ultimately have "GetView_fixed out i = v"
      using Some i by (simp add: out GetView_fixed_def slice_def buffer_bytes_def fixed_slot_bytes_def)
    then show ?thesis using Some i by (simp add: out IsValid_def)
  qed
  have len: "a_length out = length (b_slots builder)" by (simp add: out)
  show ?thesis
    unfolding array_slots_def len
  proof (rule nth_equalityI)
    show "length (map (\<lambda>i. if IsValid out i then Some (GetView_fixed out i) else None)
                   [0 ..< length (b_slots builder)]) = length (b_slots builder)"
      by simp
  next
    fix i
    assume "i < length (map (\<lambda>i. if IsValid out i then Some (GetView_fixed out i) else None)
                   [0 ..< length (b_slots builder)])"
    then have i: "i < length (b_slots builder)" by simp
    then show "map (\<lambda>i. if IsValid out i then Some (GetView_fixed out i) else None)
                   [0 ..< length (b_slots builder)] ! i = b_slots builder ! i"
      using slot [OF i] by (auto split: if_splits)
  qed
qed


text \<open>
  C3. An offset-layout or view-layout source is cast to fixed-size binary of width \<open>W\<close>
  (\<open>get\<close> is the slot reader of the source layout). If some non-null slot has a byte
  length other than \<open>W\<close>, the conversion fails with \<open>Invalid\<close>, the message naming both
  types; the visit fails at the first such slot, whatever follows it. Otherwise it succeeds
  with a freshly built fixed-width array (a data buffer of its own, from the pool) of the
  same length whose slots are those of the source: the same bytes in the non-null slots and
  null in the null slots. The length of a null slot's span is never looked at.
\<close>

theorem to_fixed_requires_exact_width:
  assumes w: "0 \<le> byte_width (to_type (options ctx))"
    and w32: "byte_width (to_type (options ctx)) \<le> 2147483647"
  shows "(width_mismatch (byte_width (to_type (options ctx))) (array_slots get input) \<longrightarrow>
            BinaryToBinaryCastExec_to_fixed get ctx input
              = Inl (Status Invalid
                      [Str ''Failed casting from '', TypeName (a_type input), Str '' to '',
                       TypeName (to_type (options ctx)), Str '': widths must match'']))
       \<and> (\<not> width_mismatch (byte_width (to_type (options ctx))) (array_slots get input) \<longrightarrow>
            (\<exists>out. BinaryToBinaryCastExec_to_fixed get ctx input = Inr out
               \<and> a_type out = to_type (options ctx)
               \<and> a_length out = a_length input
               \<and> array_slots GetView_fixed out = array_slots get input
               \<and> fixed_data out
                   = Some \<lparr>address = memory_pool ctx,
                            bytes = concat (map (fixed_slot_bytes (byte_width (to_type (options ctx))))
                                      (array_slots get input))\<rparr>))
       \<and> (\<forall>before v rest.
             array_slots get input = before @ Some v # rest
             \<and> int (length v) \<noteq> byte_width (to_type (options ctx)) \<longrightarrow>
             VisitArraySpanInline (to_fixed_value (a_type input) (options ctx)) to_fixed_null
               (before @ [Some v]) \<lparr>b_type = to_type (options ctx), b_slots = []\<rparr>
               = Inl (Status Invalid (widths_must_match_msg (a_type input) (to_type (options ctx))))
             \<and> BinaryToBinaryCastExec_to_fixed get ctx input
               = Inl (Status Invalid (widths_must_match_msg (a_type input) (to_type (options ctx)))))"
proof -
  let ?W = "byte_width (to_type (options ctx))"
  let ?slots = "array_slots get input"
  let ?b0 = "\<lparr>b_type = to_type (options ctx), b_slots = []\<rparr> :: byte list builder"
  have cast: "static_cast_size_t ?W = ?W"
    using w w32 by (simp add: static_cast_size_t_def)
  have visit: "VisitArraySpanInline (to_fixed_value (a_type input) (options ctx)) to_fixed_null
                 slots ?b0
        = (if width_mismatch ?W slots
           then Inl (Status Invalid (widths_must_match_msg (a_type input) (to_type (options ctx))))
           else Inr (?b0\<lparr>b_slots := slots\<rparr>))" for slots
    by (simp add: VisitArraySpanInline_to_fixed cast)
  have bad: "BinaryToBinaryCastExec_to_fixed get ctx input
              = Inl (Status Invalid
                      [Str ''Failed casting from '', TypeName (a_type input), Str '' to '',
                       TypeName (to_type (options ctx)), Str '': widths must match''])"
    if "width_mismatch ?W ?slots"
    using that
    by (simp add: BinaryToBinaryCastExec_to_fixed_def Let_def visit widths_must_match_msg_def)
  have good: "\<exists>out. BinaryToBinaryCastExec_to_fixed get ctx input = Inr out
               \<and> a_type out = to_type (options ctx)
               \<and> a_length out = a_length input
               \<and> array_slots GetView_fixed out = ?slots
               \<and> fixed_data out
                   = Some \<lparr>address = memory_pool ctx,
                            bytes = concat (map (fixed_slot_bytes ?W) ?slots)\<rparr>"
    if ok: "\<not> width_mismatch ?W ?slots"
  proof -
    let ?b = "?b0\<lparr>b_slots := ?slots\<rparr>"
    obtain out where fin: "FinishInternal ?b (memory_pool ctx) = Inr out"
      by (simp add: FinishInternal_def)
    have res: "BinaryToBinaryCastExec_to_fixed get ctx input = Inr out"
      using ok fin by (simp add: BinaryToBinaryCastExec_to_fixed_def Let_def visit)
    have "array_slots GetView_fixed out = b_slots ?b"
      by (rule FinishInternal_slots [OF _ _ fin]) (use w ok in simp_all)
    moreover have "a_type out = to_type (options ctx)" "a_length out = a_length input"
      "fixed_data out = Some \<lparr>address = memory_pool ctx,
                            bytes = concat (map (fixed_slot_bytes ?W) ?slots)\<rparr>"
      using fin by (auto simp: FinishInternal_def array_slots_def)
    ultimately show ?thesis using res by simp
  qed
  have first: "VisitArraySpanInline (to_fixed_value (a_type input) (options ctx)) to_fixed_null
               (before @ [Some v]) ?b0
               = Inl (Status Invalid (widths_must_match_msg (a_type input) (to_type (options ctx))))
             \<and> BinaryToBinaryCastExec_to_fixed get ctx input
               = Inl (Status Invalid (widths_must_match_msg (a_type input) (to_type (options ctx))))"
    if "?slots = before @ Some v # rest \<and> int (length v) \<noteq> ?W" for before v rest
  proof -
    have "width_mismatch ?W (before @ [Some v])" "width_mismatch ?W ?slots"
      using that by (simp_all add: width_mismatch_def)
    then show ?thesis using bad by (simp add: visit widths_must_match_msg_def)
  qed
  show ?thesis using bad good first by blast
qed

theorem to_fixed_requires_exact_width_witness:
  "BinaryToBinaryCastExec_to_fixed GetView_offset ctx_fixed2 strings_ab_abc_de
     = Inl (Status Invalid
             [Str ''Failed casting from '', TypeName StringType, Str '' to '',
              TypeName (FixedSizeBinaryType 2), Str '': widths must match''])
   \<and> (\<exists>out. BinaryToBinaryCastExec_to_fixed GetView_offset ctx_fixed2 strings_ab_null_de = Inr out
          \<and> a_length out = 3
          \<and> array_slots GetView_fixed out = [Some [0x61, 0x62], None, Some [0x64, 0x65]])"
proof -
  have w: "0 \<le> byte_width (to_type (options ctx_fixed2))"
    and w32: "byte_width (to_type (options ctx_fixed2)) \<le> 2147483647"
    by (simp_all add: ctx_fixed2_def)
  have s1: "array_slots GetView_offset strings_ab_abc_de
              = [Some [0x61, 0x62], Some [0x61, 0x62, 0x63], Some [0x64, 0x65]]"
    by code_simp
  have s2: "array_slots GetView_offset strings_ab_null_de
              = [Some [0x61, 0x62], None, Some [0x64, 0x65]]"
    by code_simp
  have m1: "width_mismatch (byte_width (to_type (options ctx_fixed2)))
              (array_slots GetView_offset strings_ab_abc_de)"
    unfolding s1 by (simp add: width_mismatch_def ctx_fixed2_def)
  have m2: "\<not> width_mismatch (byte_width (to_type (options ctx_fixed2)))
              (array_slots GetView_offset strings_ab_null_de)"
    unfolding s2 by (simp add: width_mismatch_def ctx_fixed2_def)
  have ty: "a_type strings_ab_abc_de = StringType"
    "to_type (options ctx_fixed2) = FixedSizeBinaryType 2"
    "a_length strings_ab_null_de = 3"
    by (simp_all add: strings_ab_abc_de_def strings_ab_null_de_def ctx_fixed2_def)
  from to_fixed_requires_exact_width [OF w w32, of GetView_offset strings_ab_abc_de] m1
  have r1: "BinaryToBinaryCastExec_to_fixed GetView_offset ctx_fixed2 strings_ab_abc_de
     = Inl (Status Invalid
             [Str ''Failed casting from '', TypeName StringType, Str '' to '',
              TypeName (FixedSizeBinaryType 2), Str '': widths must match''])"
    unfolding ty by blast
  from to_fixed_requires_exact_width [OF w w32, of GetView_offset strings_ab_null_de] m2
  obtain out where "BinaryToBinaryCastExec_to_fixed GetView_offset ctx_fixed2 strings_ab_null_de = Inr out"
    "a_length out = a_length strings_ab_null_de"
    "array_slots GetView_fixed out = array_slots GetView_offset strings_ab_null_de"
    by blast
  then have "\<exists>out. BinaryToBinaryCastExec_to_fixed GetView_offset ctx_fixed2 strings_ab_null_de = Inr out
          \<and> a_length out = 3
          \<and> array_slots GetView_fixed out = [Some [0x61, 0x62], None, Some [0x64, 0x65]]"
    unfolding s2 ty by blast
  with r1 show ?thesis by blast
qed

section \<open>Null patterns and the renderers\<close>

lemma nulls_preserved_same_header:
  "a_validity r = a_validity a \<Longrightarrow> a_offset r = a_offset a \<Longrightarrow> nulls_preserved a r"
  by (simp add: nulls_preserved_def list_all_iff IsValid_def split: option.splits)

lemma offset_to_offset_header:
  assumes "BinaryToBinaryCastExec_offset_to_offset ctx input out = Inr r"
  shows "a_validity r = a_validity input \<and> a_offset r = a_offset input
       \<and> a_length r = a_length input \<and> value_data r = value_data input"
proof -
  have "CastBinaryToBinaryOffsets w1 w2 ctx input x = Inr r \<Longrightarrow>
          a_validity r = a_validity x \<and> a_offset r = a_offset x \<and> a_length r = a_length x
          \<and> value_data r = value_data x" for w1 w2 x
    by (cases w1; cases w2) (auto simp: Let_def split: if_splits)
  then show ?thesis
    using assms
    by (fastforce simp: BinaryToBinaryCastExec_offset_to_offset_def ZeroCopyCastExec_offset_def
        split: sum.splits if_splits)
qed

lemma view_to_view_header:
  assumes "BinaryToBinaryCastExec_view_to_view ctx input out = Inr r"
  shows "r = input\<lparr>a_type := a_type out\<rparr>"
  using assms
  by (auto simp: BinaryToBinaryCastExec_view_to_view_def ZeroCopyCastExec_view_def
      split: sum.splits if_splits)

lemma fixed_to_fixed_header:
  assumes "BinaryToBinaryCastExec_fixed_to_fixed ctx input out = Inr r"
  shows "r = input\<lparr>a_type := a_type out\<rparr>"
  using assms
  by (auto simp: BinaryToBinaryCastExec_fixed_to_fixed_def ZeroCopyCastExec_fixed_def Let_def
      split: if_splits)

lemma view_to_offset_null_slot:
  assumes ok: "BinaryToBinaryCastExec_view_to_offset ctx v out = Inr b"
    and off0: "a_offset out = 0"
    and i: "i < a_length v" and null: "\<not> IsValid v i"
  shows "GetValues_offsets b ! (i + 1) = GetValues_offsets b ! i"
proof -
  let ?xs = "array_slots GetView_view v"
  have xi: "?xs ! i = None" using i null by (simp add: array_slots_def)
  have len: "length ?xs = a_length v" by (simp add: array_slots_def)
  have p: "prefix_len ?xs (Suc i) = prefix_len ?xs i"
    using prefix_len_Suc [of i ?xs] i len xi by (simp add: payload_def)
  have offs: "GetValues_offsets b
      = 0 # map (\<lambda>k. static_cast_to (offset_type (a_type out)) (int (prefix_len ?xs (Suc k))))
              [0 ..< a_length v]"
    by (subst view_to_offset_Inr [OF ok]) (simp add: GetValues_offsets_def off0)
  show ?thesis
  proof (cases i)
    case 0
    have "static_cast_to w 0 = 0" for w by (cases w) simp_all
    then show ?thesis using 0 i p unfolding offs
      by (simp add: prefix_len_0 upt_conv_Cons del: static_cast_to.simps upt_Suc)
  next
    case (Suc j)
    then show ?thesis using i p unfolding offs by (simp del: static_cast_to.simps upt_Suc)
  qed
qed

lemma view_to_offset_data:
  assumes ok: "BinaryToBinaryCastExec_view_to_offset ctx v out = Inr b"
  shows "buffer_bytes (value_data b) = concat (map payload (array_slots GetView_view v))"
  by (subst view_to_offset_Inr [OF ok]) (simp add: buffer_bytes_def)

lemma view_to_offset_nulls:
  assumes ok: "BinaryToBinaryCastExec_view_to_offset ctx v out = Inr b"
    and off0: "a_offset out = 0"
    and bm: "case a_validity v of None \<Rightarrow> True | Some bm \<Rightarrow> a_offset v + a_length v \<le> length bm"
  shows "nulls_preserved v b"
proof -
  have hdr: "a_offset b = 0" "a_validity b = GetOrCopyNullBitmapBuffer v"
    by (subst view_to_offset_Inr [OF ok], simp add: off0)+
  show ?thesis
    unfolding nulls_preserved_def list_all_iff
    using IsValid_GetOrCopyNullBitmapBuffer [OF hdr(2) hdr(1) _ bm] by simp
qed

lemma offset_to_view_null_slot:
  assumes ok: "BinaryToBinaryCastExec_offset_to_view ctx a out = Inr v"
    and bm: "case a_validity a of None \<Rightarrow> True | Some bm \<Rightarrow> a_offset a + a_length a \<le> length bm"
    and i: "i < a_length a" and null: "\<not> IsValid a i"
  shows "views v ! (a_offset a + i) = empty_view"
proof -
  have "i \<notin> set (valid_indices a)" using null by (simp add: valid_indices_def)
  then show ?thesis
    using i by (subst offset_to_view_Inr(1) [OF ok bm]) (simp add: nth_fold_update)
qed

lemma offset_to_view_nulls:
  assumes ok: "BinaryToBinaryCastExec_offset_to_view ctx a out = Inr v"
  shows "nulls_preserved a v"
proof -
  have "a_validity v = a_validity a \<and> a_offset v = a_offset a"
    using ok
    by (auto simp: BinaryToBinaryCastExec_offset_to_view_def ZeroCopyCastExec_offset_to_view_def
        Let_def split: sum.splits if_splits)
  then show ?thesis by (simp add: nulls_preserved_same_header)
qed

lemma fixed_to_view_nulls:
  assumes ok: "BinaryToBinaryCastExec_fixed_to_view ctx input out = Inr v"
  shows "nulls_preserved input v"
proof -
  have "a_validity v = a_validity input" "a_offset v = a_offset input"
    by (subst fixed_to_view_Inr(1) [OF ok], simp)+
  then show ?thesis by (simp add: nulls_preserved_same_header)
qed

lemma fixed_to_offset_nulls:
  assumes ok: "BinaryToBinaryCastExec_fixed_to_offset ctx input out = Inr b"
    and out: "a_offset out = a_offset input
              \<or> a_offset out = 0 \<and> a_validity out = None
                \<and> (case a_validity input of None \<Rightarrow> True
                    | Some bm \<Rightarrow> a_offset input + a_length input \<le> length bm)"
  shows "nulls_preserved input b"
proof -
  have off: "a_offset b = a_offset out"
    by (subst fixed_to_offset_Inr(1) [OF ok]) simp
  have val: "a_validity b = (if a_offset input = a_offset out then a_validity input
                      else (case a_validity input of
                              None \<Rightarrow> a_validity out
                            | Some bm \<Rightarrow> Some (CopyBitmap bm (a_offset input) (a_length input))))"
    by (subst fixed_to_offset_Inr(1) [OF ok]) simp
  show ?thesis
  proof (cases "a_offset input = a_offset out")
    case True
    then show ?thesis using off val by (simp add: nulls_preserved_same_header)
  next
    case False
    then have o: "a_offset out = 0" "a_validity out = None"
      and bm: "case a_validity input of None \<Rightarrow> True
               | Some bm \<Rightarrow> a_offset input + a_length input \<le> length bm"
      using out by auto
    show ?thesis
      unfolding nulls_preserved_def list_all_iff
      using False o bm off val
      by (auto simp: IsValid_def CopyBitmap_def split: option.splits)
  qed
qed

lemma VisitArraySpanInline_append:
  "VisitArraySpanInline (\<lambda>v b. Append b (f v)) (\<lambda>b. AppendNull b) slots builder
     = Inr (builder\<lparr>b_slots := b_slots builder @ map (map_option f) slots\<rparr>)"
proof (induction slots arbitrary: builder)
  case Nil
  then show ?case by simp
next
  case (Cons x xs)
  then show ?case
    by (cases x) (simp_all add: Append_def AppendNull_def UnsafeAppend_def UnsafeAppendNull_def)
qed

lemma NumericToString_slots:
  "NumericToStringCastFunctor_Exec formatter input
     = Inr (map (map_option (formatter (a_type input))) (array_slots GetView_primitive input))"
  by (simp add: NumericToStringCastFunctor_Exec_def VisitArraySpanInline_append Finish_def)

lemma TemporalToString_slots:
  "TemporalToStringCastFunctor_Exec formatter input
     = Inr (map (map_option (formatter (a_type input))) (array_slots GetView_primitive input))"
  by (simp add: TemporalToStringCastFunctor_Exec_def VisitArraySpanInline_append Finish_def)

lemma DecimalToString_slots:
  "DecimalToStringCastFunctor_Exec formatter decode input
     = Inr (map (map_option (\<lambda>bytes. formatter (a_type input) (decode bytes)))
              (array_slots GetView_fixed input))"
  by (simp add: DecimalToStringCastFunctor_Exec_def VisitArraySpanInline_append Finish_def)


lemma ConvertZoned_slots:
  "ConvertZoned LocateZone unit input timezone builder
     = (case LocateZone timezone of
          Inl e \<Rightarrow> Inl e
        | Inr tz \<Rightarrow>
            Inr (builder\<lparr>b_slots := b_slots builder
                   @ map (map_option (zoned_text unit timezone tz))
                       (array_slots GetView_primitive input)\<rparr>))"
proof (cases "LocateZone timezone")
  case (Inl e)
  then show ?thesis by (simp add: ConvertZoned_def)
next
  case (Inr tz)
  have neq: "kFormatString \<noteq> kUtcFormatString"
    by (simp add: kFormatString_def kUtcFormatString_def)
  have step: "(\<lambda>v b. case TimestampFormatter unit
                           (if timezone = ''UTC'' then kUtcFormatString else kFormatString)
                           tz v of
                      Inl e \<Rightarrow> Inl e
                    | Inr formatted \<Rightarrow> Append b formatted)
            = (\<lambda>v b. Append b (zoned_text unit timezone tz v))"
    using neq by (auto simp: TimestampFormatter_def zoned_text_def Let_def fun_eq_iff)
  have null: "(\<lambda>b::string builder. Inr (UnsafeAppendNull b)) = (\<lambda>b. AppendNull b)"
    by (simp add: AppendNull_def fun_eq_iff)
  show ?thesis
    using Inr by (simp add: ConvertZoned_def step null VisitArraySpanInline_append)
qed

lemma TimestampToString_slots:
  assumes ty: "a_type input = TimestampType unit timezone"
  shows "TimestampToString_Exec LocateZone input
     = (if timezone = []
        then Inr (map (map_option (format_civil unit)) (array_slots GetView_primitive input))
        else (case LocateZone timezone of
                Inl e \<Rightarrow> Inl e
              | Inr tz \<Rightarrow>
                  Inr (map (map_option (zoned_text unit timezone tz))
                         (array_slots GetView_primitive input))))"
proof -
  have null: "(\<lambda>b::string builder. Inr (UnsafeAppendNull b)) = (\<lambda>b. AppendNull b)"
    by (simp add: AppendNull_def fun_eq_iff)
  have naive: "StringFormatter_Timestamp (a_type input) = format_civil unit"
    using ty by (simp add: StringFormatter_Timestamp_def fun_eq_iff)
  have tz: "GetInputTimezone (a_type input) = timezone" "timestamp_unit (a_type input) = unit"
    using ty by (simp_all add: GetInputTimezone_def timestamp_unit_def)
  show ?thesis
  proof (cases "timezone = []")
    case True
    then show ?thesis
      by (simp add: TimestampToString_Exec_def Let_def tz null naive VisitArraySpanInline_append
          Finish_def)
  next
    case False
    have "(case unit of
             SECOND \<Rightarrow> ConvertZoned LocateZone SECOND input timezone b
           | MILLI \<Rightarrow> ConvertZoned LocateZone MILLI input timezone b
           | MICRO \<Rightarrow> ConvertZoned LocateZone MICRO input timezone b
           | NANO \<Rightarrow> ConvertZoned LocateZone NANO input timezone b)
          = ConvertZoned LocateZone unit input timezone b" for b
      by (cases unit) simp_all
    then show ?thesis
      using False
      by (simp add: TimestampToString_Exec_def Let_def tz ConvertZoned_slots Finish_def
          split: sum.splits)
  qed
qed

lemma to_fixed_nulls:
  assumes ok: "BinaryToBinaryCastExec_to_fixed get ctx input = Inr out"
  shows "nulls_preserved input out"
proof -
  let ?slots = "array_slots get input"
  let ?b0 = "\<lparr>b_type = to_type (options ctx), b_slots = []\<rparr> :: byte list builder"
  have fin: "FinishInternal (?b0\<lparr>b_slots := ?slots\<rparr>) (memory_pool ctx) = Inr out"
    using ok
    by (simp add: BinaryToBinaryCastExec_to_fixed_def Let_def VisitArraySpanInline_to_fixed
        split: if_splits)
  have v: "a_validity out = Some (map (\<lambda>x. x \<noteq> None) ?slots)" and o: "a_offset out = 0"
    using fin by (auto simp: FinishInternal_def)
  show ?thesis
    unfolding nulls_preserved_def list_all_iff
    by (simp add: IsValid_def [of out] v o array_slots_def)
qed

lemma Visit_ignores_nulls:
  "ArraySpanVisitor_Visit slots = ArraySpanVisitor_Visit (filter (\<lambda>x. x \<noteq> None) slots)"
  by (simp add: ArraySpanVisitor_Visit_eq)

section \<open>The slots of a converted array\<close>



lemma view_bytes_fixed_view:
  assumes w: "0 \<le> w" and pos: "0 \<le> pos" and top: "pos \<le> 2147483647"
    and data: "w \<le> kInlineSize \<Longrightarrow> pos + w \<le> int (length d)"
    and bufs: "\<not> w \<le> kInlineSize \<Longrightarrow> buffer_bytes (bufs ! 0) = d"
  shows "view_bytes bufs (fixed_view w d pos) = slice d pos w"
proof (cases "w \<le> kInlineSize")
  case True
  have "length (slice d pos w) = nat w"
    using data [OF True] w pos by (simp add: slice_def) 
  then show ?thesis using True by (simp add: fixed_view_def inline_data_def)
next
  case False
  have "static_cast_to W32 pos = pos" using pos top by (rule static_cast_W32_id)
  then show ?thesis using False bufs [OF False] by (simp add: fixed_view_def del: static_cast_to.simps)
qed

lemma fixed_to_view_bytes:
  assumes wf: "wf_fixed_array a"
    and ok: "BinaryToBinaryCastExec_fixed_to_view ctx a out = Inr v"
    and i: "i < a_length a"
  shows "view_bytes (variadic v) (views v ! (a_offset a + i)) = GetView_fixed a i"
proof -
  let ?w = "byte_width (a_type a)"
  let ?d = "buffer_bytes (fixed_data a)"
  let ?pos = "(int (a_offset a) + int i) * ?w"
  have w: "0 \<le> ?w"
    and data: "(int (a_offset a) + int (a_length a)) * ?w \<le> int (length ?d)"
    using wf by (simp_all add: wf_fixed_array_def)
  note r = fixed_to_view_Inr [OF ok]
  have var: "variadic v = (if ?w \<le> kInlineSize then resize 1 (variadic out) else [fixed_data a])"
    by (subst r(1)) simp
  have cap: "(int (a_offset a + a_length a) - 1) * ?w \<le> 2147483647"
    using r(2) i by simp
  have "int (a_offset a) + int i \<le> int (a_offset a + a_length a) - 1" using i by simp
  then have "?pos \<le> (int (a_offset a + a_length a) - 1) * ?w"
    using w by (intro mult_right_mono) simp_all
  then have top: "?pos \<le> 2147483647" using cap by simp
  have pos: "0 \<le> ?pos" using w by simp
  have "int (a_offset a) + int i + 1 \<le> int (a_offset a) + int (a_length a)" using i by simp
  then have "(int (a_offset a) + int i + 1) * ?w \<le> (int (a_offset a) + int (a_length a)) * ?w"
    using w by (intro mult_right_mono) simp_all
  then have fit: "?pos + ?w \<le> int (length ?d)"
    using data by (simp add: algebra_simps)
  have "view_bytes (variadic v) (fixed_view ?w ?d ?pos) = slice ?d ?pos ?w"
    using w pos top fit var by (intro view_bytes_fixed_view) simp_all
  then show ?thesis
    using fixed_to_view_nth [OF ok w i] by (simp add: GetView_fixed_def)
qed



section \<open>The UTF-8 guard\<close>






















section \<open>Null slots stay null\<close>

text \<open>
  C9 (as amended). In every conversion pair a null source slot is a null destination slot,
  and neither the validator nor a formatter is applied to it: the validator's verdict is
  that of the non-null slots alone, and a renderer's output is the formatter mapped over
  the non-null slots with null kept where it was. The view-to-offset conversion writes no
  data bytes for a null slot and repeats the previous offset (a zero-length span); the
  offset-to-view conversion leaves the view of a null slot zero-filled; the conversions
  through a builder append a null. The conversions that share or copy the source buffers
  whole keep the bytes under a null slot: the same-layout casts share the buffers
  unchanged, the fixed-to-view conversion gives every slot of a well-formed source, null
  or not, a view that holds or references the slot's bytes, and the fixed-to-offset
  conversion copies the whole data buffer and gives every slot, null or not, a span of
  \<open>W\<close> bytes whenever \<open>(offset + N) * W\<close> is within the offset type's maximum (beyond
  it the written offsets wrap), so that a zero-length span for a null slot is not
  promised there.
\<close>

theorem null_slots_stay_null:
  "(BinaryToBinaryCastExec_offset_to_offset ctx1 oa oo1 = Inr r1 \<longrightarrow>
      nulls_preserved oa r1 \<and> value_data r1 = value_data oa)
   \<and> (BinaryToBinaryCastExec_view_to_offset ctx2 va oo2 = Inr r2 \<and> a_offset oo2 = 0
       \<and> (case a_validity va of None \<Rightarrow> True | Some bm \<Rightarrow> a_offset va + a_length va \<le> length bm)
      \<longrightarrow> nulls_preserved va r2
          \<and> (\<forall>i < a_length va. \<not> IsValid va i \<longrightarrow>
                GetValues_offsets r2 ! (i + 1) = GetValues_offsets r2 ! i)
          \<and> buffer_bytes (value_data r2) = concat (map payload (array_slots GetView_view va)))
   \<and> (BinaryToBinaryCastExec_offset_to_view ctx3 oa vo3 = Inr r3
       \<and> (case a_validity oa of None \<Rightarrow> True | Some bm \<Rightarrow> a_offset oa + a_length oa \<le> length bm)
      \<longrightarrow> nulls_preserved oa r3
          \<and> (\<forall>i < a_length oa. \<not> IsValid oa i \<longrightarrow> views r3 ! (a_offset oa + i) = empty_view))
   \<and> (BinaryToBinaryCastExec_view_to_view ctx4 va vo4 = Inr r4 \<longrightarrow>
        nulls_preserved va r4 \<and> views r4 = views va \<and> variadic r4 = variadic va)
   \<and> (BinaryToBinaryCastExec_fixed_to_view ctx5 fa vo5 = Inr r5 \<longrightarrow>
        nulls_preserved fa r5
        \<and> (wf_fixed_array fa \<longrightarrow>
              (\<forall>i < a_length fa.
                 view_bytes (variadic r5) (views r5 ! (a_offset fa + i)) = GetView_fixed fa i)))
   \<and> (BinaryToBinaryCastExec_fixed_to_offset ctx6 fa oo6 = Inr r6
       \<and> (a_offset oo6 = a_offset fa
          \<or> a_offset oo6 = 0 \<and> a_validity oo6 = None
            \<and> (case a_validity fa of None \<Rightarrow> True
                | Some bm \<Rightarrow> a_offset fa + a_length fa \<le> length bm))
      \<longrightarrow> nulls_preserved fa r6)
   \<and> (BinaryToBinaryCastExec_fixed_to_offset ctx6 fa oo6 = Inr r6 \<longrightarrow>
        buffer_bytes (value_data r6) = buffer_bytes (fixed_data fa)
        \<and> (0 \<le> byte_width (a_type fa)
            \<and> (int (a_offset fa) + int (a_length fa)) * byte_width (a_type fa)
                \<le> numeric_limits_max (offset_type (a_type oo6))
            \<and> a_offset oo6 + a_length fa < length (value_offsets oo6)
           \<longrightarrow> (\<forall>i < a_length fa.
                  GetValues_offsets r6 ! i = (int (a_offset fa) + int i) * byte_width (a_type fa)
                  \<and> GetValues_offsets r6 ! (i + 1) - GetValues_offsets r6 ! i
                      = byte_width (a_type fa))))
   \<and> (BinaryToBinaryCastExec_fixed_to_fixed ctx7 fa fo7 = Inr r7 \<longrightarrow>
        nulls_preserved fa r7 \<and> fixed_data r7 = fixed_data fa)
   \<and> (BinaryToBinaryCastExec_to_fixed get ctx8 xa = Inr r8 \<longrightarrow> nulls_preserved xa r8)
   \<and> NumericToStringCastFunctor_Exec formatter pa
       = Inr (map (map_option (formatter (a_type pa))) (array_slots GetView_primitive pa))
   \<and> TemporalToStringCastFunctor_Exec formatter pa
       = Inr (map (map_option (formatter (a_type pa))) (array_slots GetView_primitive pa))
   \<and> DecimalToStringCastFunctor_Exec dformatter decode fa
       = Inr (map (map_option (\<lambda>bytes. dformatter (a_type fa) (decode bytes)))
                (array_slots GetView_fixed fa))
   \<and> (a_type ta = TimestampType unit timezone \<and> TimestampToString_Exec LocateZone ta = Inr r9
      \<longrightarrow> length r9 = a_length ta
          \<and> (\<forall>i < a_length ta. (r9 ! i = None) = (\<not> IsValid ta i)))
   \<and> ArraySpanVisitor_Visit slots = ArraySpanVisitor_Visit (filter (\<lambda>x. x \<noteq> None) slots)"
proof -
  have p1: "nulls_preserved oa r1 \<and> value_data r1 = value_data oa"
    if "BinaryToBinaryCastExec_offset_to_offset ctx1 oa oo1 = Inr r1"
    using offset_to_offset_header [OF that] by (simp add: nulls_preserved_same_header)
  have p2: "nulls_preserved va r2
          \<and> (\<forall>i < a_length va. \<not> IsValid va i \<longrightarrow>
                GetValues_offsets r2 ! (i + 1) = GetValues_offsets r2 ! i)
          \<and> buffer_bytes (value_data r2) = concat (map payload (array_slots GetView_view va))"
    if h: "BinaryToBinaryCastExec_view_to_offset ctx2 va oo2 = Inr r2 \<and> a_offset oo2 = 0
       \<and> (case a_validity va of None \<Rightarrow> True | Some bm \<Rightarrow> a_offset va + a_length va \<le> length bm)"
  proof -
    from h have ok: "BinaryToBinaryCastExec_view_to_offset ctx2 va oo2 = Inr r2"
      and off0: "a_offset oo2 = 0"
      and bm: "case a_validity va of None \<Rightarrow> True | Some bm \<Rightarrow> a_offset va + a_length va \<le> length bm"
      by simp_all
    show ?thesis
      using view_to_offset_nulls [OF ok off0 bm] view_to_offset_null_slot [OF ok off0]
        view_to_offset_data [OF ok]
      by blast
  qed
  have p3: "nulls_preserved oa r3
          \<and> (\<forall>i < a_length oa. \<not> IsValid oa i \<longrightarrow> views r3 ! (a_offset oa + i) = empty_view)"
    if h: "BinaryToBinaryCastExec_offset_to_view ctx3 oa vo3 = Inr r3
       \<and> (case a_validity oa of None \<Rightarrow> True | Some bm \<Rightarrow> a_offset oa + a_length oa \<le> length bm)"
  proof -
    from h have ok: "BinaryToBinaryCastExec_offset_to_view ctx3 oa vo3 = Inr r3"
      and bm: "case a_validity oa of None \<Rightarrow> True | Some bm \<Rightarrow> a_offset oa + a_length oa \<le> length bm"
      by simp_all
    show ?thesis
      using offset_to_view_nulls [OF ok] offset_to_view_null_slot [OF ok bm] by blast
  qed
  have p4: "nulls_preserved va r4 \<and> views r4 = views va \<and> variadic r4 = variadic va"
    if "BinaryToBinaryCastExec_view_to_view ctx4 va vo4 = Inr r4"
    using view_to_view_header [OF that] by (simp add: nulls_preserved_same_header)
  have p5: "nulls_preserved fa r5
        \<and> (wf_fixed_array fa \<longrightarrow>
              (\<forall>i < a_length fa.
                 view_bytes (variadic r5) (views r5 ! (a_offset fa + i)) = GetView_fixed fa i))"
    if ok: "BinaryToBinaryCastExec_fixed_to_view ctx5 fa vo5 = Inr r5"
    using fixed_to_view_nulls [OF ok] fixed_to_view_bytes [OF _ ok] by blast
  have p6': "buffer_bytes (value_data r6) = buffer_bytes (fixed_data fa)
        \<and> (0 \<le> byte_width (a_type fa)
            \<and> (int (a_offset fa) + int (a_length fa)) * byte_width (a_type fa)
                \<le> numeric_limits_max (offset_type (a_type oo6))
            \<and> a_offset oo6 + a_length fa < length (value_offsets oo6)
           \<longrightarrow> (\<forall>i < a_length fa.
                  GetValues_offsets r6 ! i = (int (a_offset fa) + int i) * byte_width (a_type fa)
                  \<and> GetValues_offsets r6 ! (i + 1) - GetValues_offsets r6 ! i
                      = byte_width (a_type fa)))"
    if ok: "BinaryToBinaryCastExec_fixed_to_offset ctx6 fa oo6 = Inr r6"
  proof (intro conjI impI allI)
    show "buffer_bytes (value_data r6) = buffer_bytes (fixed_data fa)"
      using fixed_to_offset_data [OF ok] by (simp add: buffer_bytes_def split: option.splits)
  next
    fix i
    assume h: "0 \<le> byte_width (a_type fa)
            \<and> (int (a_offset fa) + int (a_length fa)) * byte_width (a_type fa)
                \<le> numeric_limits_max (offset_type (a_type oo6))
            \<and> a_offset oo6 + a_length fa < length (value_offsets oo6)"
      and i: "i < a_length fa"
    from h have w: "0 \<le> byte_width (a_type fa)"
      and fits: "(int (a_offset fa) + int (a_length fa)) * byte_width (a_type fa)
                \<le> numeric_limits_max (offset_type (a_type oo6))"
      and pre: "a_offset oo6 + a_length fa < length (value_offsets oo6)"
      by simp_all
    show a: "GetValues_offsets r6 ! i = (int (a_offset fa) + int i) * byte_width (a_type fa)"
      using fixed_to_offset_progression [OF ok pre _ w fits, of i] i by simp
    have b: "GetValues_offsets r6 ! (i + 1)
               = (int (a_offset fa) + int (i + 1)) * byte_width (a_type fa)"
      using fixed_to_offset_progression [OF ok pre _ w fits, of "i + 1"] i by simp
    show "GetValues_offsets r6 ! (i + 1) - GetValues_offsets r6 ! i = byte_width (a_type fa)"
      unfolding a b by (simp add: algebra_simps)
  qed
  have p6: "nulls_preserved fa r6"
    if h: "BinaryToBinaryCastExec_fixed_to_offset ctx6 fa oo6 = Inr r6
       \<and> (a_offset oo6 = a_offset fa
          \<or> a_offset oo6 = 0 \<and> a_validity oo6 = None
            \<and> (case a_validity fa of None \<Rightarrow> True
                | Some bm \<Rightarrow> a_offset fa + a_length fa \<le> length bm))"
    using fixed_to_offset_nulls [of ctx6 fa oo6 r6] h by blast
  have p7: "nulls_preserved fa r7 \<and> fixed_data r7 = fixed_data fa"
    if "BinaryToBinaryCastExec_fixed_to_fixed ctx7 fa fo7 = Inr r7"
    using fixed_to_fixed_header [OF that] by (simp add: nulls_preserved_same_header)
  have p8: "nulls_preserved xa r8"
    if "BinaryToBinaryCastExec_to_fixed get ctx8 xa = Inr r8"
    using that by (rule to_fixed_nulls)
  have p9: "length r9 = a_length ta \<and> (\<forall>i < a_length ta. (r9 ! i = None) = (\<not> IsValid ta i))"
    if h: "a_type ta = TimestampType unit timezone \<and> TimestampToString_Exec LocateZone ta = Inr r9"
  proof -
    from h have ty: "a_type ta = TimestampType unit timezone"
      and ok: "TimestampToString_Exec LocateZone ta = Inr r9" by simp_all
    obtain g where r9: "r9 = map (map_option g) (array_slots GetView_primitive ta)"
      using ok unfolding TimestampToString_slots [OF ty]
      by (auto split: if_splits sum.splits)
    show ?thesis
      unfolding r9 by (simp add: array_slots_def)
  qed
  show ?thesis
    by (intro conjI;
        ((rule impI, (erule p1 | erule p2 | erule p3 | erule p4 | erule p5 | erule p6 | erule p6'
            | erule p7 | erule p8 | erule p9))
         | rule NumericToString_slots | rule TemporalToString_slots | rule DecimalToString_slots
         | rule Visit_ignores_nulls))
qed

theorem null_slots_stay_null_witness:
  "nulls_preserved sliced_binary sliced_binary
   \<and> nulls_preserved sliced_binary_as_view sliced_binary_back
   \<and> GetValues_offsets sliced_binary_back ! 2 = GetValues_offsets sliced_binary_back ! 1
   \<and> buffer_bytes (value_data sliced_binary_back)
       = concat (map payload (array_slots GetView_view sliced_binary_as_view))
   \<and> nulls_preserved sliced_binary sliced_binary_as_view
   \<and> views sliced_binary_as_view ! 2 = empty_view
   \<and> nulls_preserved fixed12 fixed12_as_view
   \<and> \<not> IsValid fixed12 1
   \<and> view_bytes (variadic fixed12_as_view) (views fixed12_as_view ! 2)
       = [24, 25, 26, 27, 28, 29, 30, 31, 32, 33, 34, 35]
   \<and> nulls_preserved fixed12 fixed12_as_offset
   \<and> buffer_bytes (value_data fixed12_as_offset) = buffer_bytes (fixed_data fixed12)
   \<and> GetValues_offsets fixed12_as_offset ! 2 - GetValues_offsets fixed12_as_offset ! 1 = 12
   \<and> nulls_preserved fixed12 fixed12
   \<and> nulls_preserved strings_ab_null_de ab_null_de_as_fixed
   \<and> NumericToStringCastFunctor_Exec (\<lambda>ty. pad_digits 2) numbers
       = Inr [Some ''42'', None, Some ''05'']
   \<and> TimestampToString_Exec zones (timestamps SECOND ''UTC'')
       = Inr [Some ''2021-01-01 00:00:00Z'', None]
   \<and> [Some ''2021-01-01 00:00:00Z'', None] ! 1 = (None :: string option)"
proof -
  have k1: "BinaryToBinaryCastExec_offset_to_offset ctx_strict sliced_binary (offset_out BinaryType)
              = Inr sliced_binary"
    by code_simp
  have k2: "BinaryToBinaryCastExec_view_to_offset ctx_strict sliced_binary_as_view
              (offset_out BinaryType) = Inr sliced_binary_back"
    by code_simp
  have k3: "BinaryToBinaryCastExec_offset_to_view ctx_strict sliced_binary (view_out BinaryViewType)
              = Inr sliced_binary_as_view"
    by code_simp
  have k4: "BinaryToBinaryCastExec_view_to_view ctx_strict sliced_binary_as_view
              (view_out BinaryViewType) = Inr sliced_binary_as_view"
    by code_simp
  have k5: "BinaryToBinaryCastExec_fixed_to_view ctx_strict fixed12
              ((view_out BinaryViewType)\<lparr>a_length := 2\<rparr>) = Inr fixed12_as_view"
    by code_simp
  have k6: "BinaryToBinaryCastExec_fixed_to_offset ctx_strict fixed12
              ((offset_out BinaryType)\<lparr>value_offsets := [0, 0, 0]\<rparr>) = Inr fixed12_as_offset"
    by code_simp
  have k7: "BinaryToBinaryCastExec_fixed_to_fixed ctx_fixed12 fixed12 fixed12 = Inr fixed12"
    by code_simp
  have k8: "BinaryToBinaryCastExec_to_fixed GetView_offset ctx_fixed2 strings_ab_null_de
              = Inr ab_null_de_as_fixed"
    by code_simp
  have ty: "a_type (timestamps SECOND ''UTC'') = TimestampType SECOND ''UTC''"
    by (simp add: timestamps_def)
  have tz: "zones ''UTC'' = Inr (\<lambda>t. 0)"
    by (simp add: zones_def)
  have tslots: "array_slots GetView_primitive (timestamps SECOND ''UTC'') = [Some 1609459200, None]"
    by code_simp
  have ztext: "zoned_text SECOND ''UTC'' (\<lambda>t. 0) 1609459200 = ''2021-01-01 00:00:00Z''"
    by code_simp
  have k9: "TimestampToString_Exec zones (timestamps SECOND ''UTC'')
              = Inr [Some ''2021-01-01 00:00:00Z'', None]"
    unfolding TimestampToString_slots [OF ty] by (simp add: tz tslots ztext)
  have c2: "a_offset (offset_out BinaryType) = 0
       \<and> (case a_validity sliced_binary_as_view of None \<Rightarrow> True
           | Some bm \<Rightarrow> a_offset sliced_binary_as_view + a_length sliced_binary_as_view \<le> length bm)"
    by code_simp
  have c3: "case a_validity sliced_binary of None \<Rightarrow> True
           | Some bm \<Rightarrow> a_offset sliced_binary + a_length sliced_binary \<le> length bm"
    by code_simp
  have c6: "a_offset ((offset_out BinaryType)\<lparr>value_offsets := [0, 0, 0]\<rparr>) = 0
       \<and> a_validity ((offset_out BinaryType)\<lparr>value_offsets := [0, 0, 0]\<rparr>) = None
       \<and> (case a_validity fixed12 of None \<Rightarrow> True
           | Some bm \<Rightarrow> a_offset fixed12 + a_length fixed12 \<le> length bm)"
    by code_simp
  have n1: "1 < a_length sliced_binary_as_view \<and> \<not> IsValid sliced_binary_as_view 1"
    by code_simp
  have n3: "1 < a_length sliced_binary \<and> \<not> IsValid sliced_binary 1 \<and> a_offset sliced_binary + 1 = 2"
    by code_simp
  have nums: "map (map_option (pad_digits 2)) (array_slots GetView_primitive numbers)
                = [Some ''42'', None, Some ''05'']"
    by code_simp
  note T = null_slots_stay_null
    [where ?ctx1.0 = ctx_strict and oa = sliced_binary and ?oo1.0 = "offset_out BinaryType"
       and ?r1.0 = sliced_binary
       and ?ctx2.0 = ctx_strict and va = sliced_binary_as_view and ?oo2.0 = "offset_out BinaryType"
       and ?r2.0 = sliced_binary_back
       and ?ctx3.0 = ctx_strict and ?vo3.0 = "view_out BinaryViewType"
       and ?r3.0 = sliced_binary_as_view
       and ?ctx4.0 = ctx_strict and ?vo4.0 = "view_out BinaryViewType"
       and ?r4.0 = sliced_binary_as_view
       and ?ctx5.0 = ctx_strict and fa = fixed12
       and ?vo5.0 = "(view_out BinaryViewType)\<lparr>a_length := 2\<rparr>" and ?r5.0 = fixed12_as_view
       and ?ctx6.0 = ctx_strict
       and ?oo6.0 = "(offset_out BinaryType)\<lparr>value_offsets := [0, 0, 0]\<rparr>"
       and ?r6.0 = fixed12_as_offset
       and ?ctx7.0 = ctx_fixed12 and ?fo7.0 = fixed12 and ?r7.0 = fixed12
       and get = GetView_offset and ?ctx8.0 = ctx_fixed2 and xa = strings_ab_null_de
       and ?r8.0 = ab_null_de_as_fixed
       and formatter = "\<lambda>ty. pad_digits 2" and pa = numbers
       and dformatter = "\<lambda>ty. pad_digits 2" and decode = "\<lambda>bs. int (length bs)"
       and ta = "timestamps SECOND ''UTC''" and unit = SECOND and timezone = "''UTC''"
       and LocateZone = zones and ?r9.0 = "[Some ''2021-01-01 00:00:00Z'', None]"
       and slots = "[Some [0xFF], None]"]
  have a1: "nulls_preserved sliced_binary sliced_binary" using T [THEN conjunct1] k1 by blast
  have a2: "nulls_preserved sliced_binary_as_view sliced_binary_back
     \<and> GetValues_offsets sliced_binary_back ! (1 + 1) = GetValues_offsets sliced_binary_back ! 1
     \<and> buffer_bytes (value_data sliced_binary_back)
       = concat (map payload (array_slots GetView_view sliced_binary_as_view))"
    using T [THEN conjunct2, THEN conjunct1] k2 c2 n1 by blast
  have a3: "nulls_preserved sliced_binary sliced_binary_as_view
     \<and> views sliced_binary_as_view ! (a_offset sliced_binary + 1) = empty_view"
    using T [THEN conjunct2, THEN conjunct2, THEN conjunct1] k3 c3 n3 by blast
  have a5: "nulls_preserved fixed12 fixed12_as_view" using T [THEN conjunct2, THEN conjunct2, THEN conjunct2, THEN conjunct2, THEN conjunct1] k5 by blast
  have a6: "nulls_preserved fixed12 fixed12_as_offset" using T [THEN conjunct2, THEN conjunct2, THEN conjunct2, THEN conjunct2, THEN conjunct2, THEN conjunct1] k6 c6 by blast
  have wf12: "wf_fixed_array fixed12" by code_simp
  have n12: "1 < a_length fixed12 \<and> a_offset fixed12 + 1 = 2 \<and> \<not> IsValid fixed12 1
      \<and> GetView_fixed fixed12 1 = [24, 25, 26, 27, 28, 29, 30, 31, 32, 33, 34, 35]"
    by code_simp
  have a5': "view_bytes (variadic fixed12_as_view) (views fixed12_as_view ! (a_offset fixed12 + 1))
       = GetView_fixed fixed12 1"
    using T [THEN conjunct2, THEN conjunct2, THEN conjunct2, THEN conjunct2, THEN conjunct1] k5 wf12 n12 by blast
  have c6': "0 \<le> byte_width (a_type fixed12)
            \<and> (int (a_offset fixed12) + int (a_length fixed12)) * byte_width (a_type fixed12)
                \<le> numeric_limits_max
                     (offset_type (a_type ((offset_out BinaryType)\<lparr>value_offsets := [0, 0, 0]\<rparr>)))
            \<and> a_offset ((offset_out BinaryType)\<lparr>value_offsets := [0, 0, 0]\<rparr>) + a_length fixed12
                < length (value_offsets ((offset_out BinaryType)\<lparr>value_offsets := [0, 0, 0]\<rparr>))
            \<and> byte_width (a_type fixed12) = 12"
    by code_simp
  have a6': "buffer_bytes (value_data fixed12_as_offset) = buffer_bytes (fixed_data fixed12)
      \<and> GetValues_offsets fixed12_as_offset ! (1 + 1) - GetValues_offsets fixed12_as_offset ! 1
          = byte_width (a_type fixed12)"
    using T [THEN conjunct2, THEN conjunct2, THEN conjunct2, THEN conjunct2, THEN conjunct2, THEN conjunct2, THEN conjunct1] k6 c6' n12 by blast
  have a7: "nulls_preserved fixed12 fixed12" using T [THEN conjunct2, THEN conjunct2, THEN conjunct2, THEN conjunct2, THEN conjunct2, THEN conjunct2, THEN conjunct2, THEN conjunct1] k7 by blast
  have a8: "nulls_preserved strings_ab_null_de ab_null_de_as_fixed" using T [THEN conjunct2, THEN conjunct2, THEN conjunct2, THEN conjunct2, THEN conjunct2, THEN conjunct2, THEN conjunct2, THEN conjunct2, THEN conjunct1] k8 by blast
  have a9: "NumericToStringCastFunctor_Exec (\<lambda>ty. pad_digits 2) numbers
       = Inr [Some ''42'', None, Some ''05'']"
    using T [THEN conjunct2, THEN conjunct2, THEN conjunct2, THEN conjunct2, THEN conjunct2, THEN conjunct2, THEN conjunct2, THEN conjunct2, THEN conjunct2, THEN conjunct1] nums by simp
  have ts: "a_length (timestamps SECOND ''UTC'') = 2 \<and> \<not> IsValid (timestamps SECOND ''UTC'') 1"
    by code_simp
  have a10: "[Some ''2021-01-01 00:00:00Z'', None] ! 1 = (None :: string option)"
    using T [THEN conjunct2, THEN conjunct2, THEN conjunct2, THEN conjunct2, THEN conjunct2, THEN conjunct2, THEN conjunct2, THEN conjunct2, THEN conjunct2, THEN conjunct2, THEN conjunct2, THEN conjunct2, THEN conjunct1] ty k9 ts by simp
  show ?thesis
    using a1 a2 a3 a5 a5' a6 a6' a7 a8 a9 a10 n3 n12 c6' k9 by (simp add: numeral_2_eq_2)
qed


text \<open>Fixed-size binary to binary: the null second slot of \<open>fixed12\<close> is null in the
  output, and its span there is the 12 bytes from offset 24 to offset 36.\<close>

theorem fixed_to_offset_null_slot_has_span_counterexample:
  "BinaryToBinaryCastExec_fixed_to_offset ctx_strict fixed12
       ((offset_out BinaryType)\<lparr>value_offsets := [0, 0, 0]\<rparr>) = Inr fixed12_as_offset
   \<and> \<not> IsValid fixed12 1 \<and> \<not> IsValid fixed12_as_offset 1
   \<and> GetValues_offsets fixed12_as_offset ! 1 = 24
   \<and> GetValues_offsets fixed12_as_offset ! 2 = 36
   \<and> GetView_offset fixed12_as_offset 1 = [24, 25, 26, 27, 28, 29, 30, 31, 32, 33, 34, 35]"
  by code_simp

section \<open>Timestamps to text\<close>








end
